theory Spec2Isabelle
  imports Main "HOL-Library.Sublist"
begin

section \<open>Python strings\<close>

text \<open>
  A Python \<open>str\<close> is modelled as a \<open>string\<close>: a list of characters, each standing
  for one code point below 256. \<open>len\<close> is \<open>length\<close>, the slice \<open>s[:n]\<close> is
  \<open>take n s\<close>, and \<open>a in b\<close> on strings is the contiguous-sublist test.
\<close>

definition py_isspace :: "char \<Rightarrow> bool" where
  \<comment> \<open>the code points below 256 that \<open>str.split()\<close> and \<open>str.strip()\<close> treat as whitespace\<close>
  "py_isspace c =
     (let n = (of_char c :: nat)
      in (9 \<le> n \<and> n \<le> 13) \<or> (28 \<le> n \<and> n \<le> 32) \<or> n = 133 \<or> n = 160)"

definition py_strip :: "string \<Rightarrow> string" where
  "py_strip s = rev (dropWhile py_isspace (rev (dropWhile py_isspace s)))"

fun split_from :: "string \<Rightarrow> string \<Rightarrow> string list" where
  \<comment> \<open>\<open>cur\<close> is the word being read\<close>
  "split_from cur [] = (if cur = [] then [] else [cur])"
| "split_from cur (c # cs) =
     (if py_isspace c
      then (if cur = [] then split_from [] cs else cur # split_from [] cs)
      else split_from (cur @ [c]) cs)"

definition py_split :: "string \<Rightarrow> string list" where
  \<comment> \<open>\<open>s.split()\<close>: the maximal runs of non-whitespace\<close>
  "py_split s = split_from [] s"

fun py_join :: "string \<Rightarrow> string list \<Rightarrow> string" where
  "py_join sep [] = []"
| "py_join sep [x] = x"
| "py_join sep (x # y # ys) = x @ sep @ py_join sep (y # ys)"

definition py_replace_char :: "char \<Rightarrow> char \<Rightarrow> string \<Rightarrow> string" where
  \<comment> \<open>\<open>s.replace(a, b)\<close> for one-character \<open>a\<close> and \<open>b\<close>\<close>
  "py_replace_char a b s = map (\<lambda>c. if c = a then b else c) s"

fun py_in :: "string \<Rightarrow> string \<Rightarrow> bool" where
  \<comment> \<open>\<open>p in s\<close>\<close>
  "py_in p [] = (p = [])"
| "py_in p (c # cs) = (prefix p (c # cs) \<or> py_in p cs)"

definition py_lower_char :: "char \<Rightarrow> char" where
  "py_lower_char c =
     (let n = (of_char c :: nat)
      in if (65 \<le> n \<and> n \<le> 90) \<or> (192 \<le> n \<and> n \<le> 222 \<and> n \<noteq> 215)
         then char_of (n + 32) else c)"

definition py_lower :: "string \<Rightarrow> string" where
  "py_lower s = map py_lower_char s"

definition py_or :: "string option \<Rightarrow> string \<Rightarrow> string" where
  \<comment> \<open>\<open>x or d\<close> for \<open>x\<close> a string or \<open>None\<close>: \<open>None\<close> and the empty string are falsy\<close>
  "py_or x d = (case x of None \<Rightarrow> d | Some s \<Rightarrow> if s = [] then d else s)"

section \<open>The text cleaner\<close>

definition clean_review_text :: "string \<Rightarrow> string" where
  "clean_review_text text =
     (if text = [] then []
      else let t = py_replace_char (CHR 0x09) CHR '' ''
                     (py_replace_char (CHR 0x0A) CHR '' ''
                       (py_replace_char (CHR 0x0D) CHR '' '' text));
               t = py_join '' '' (py_split t)
           in py_strip t)"

section \<open>Review identifiers\<close>

text \<open>
  \<open>hashlib.sha1(s.encode()).hexdigest()\<close> is a library function; it is a parameter
  \<open>sha1_hex\<close> of the model, a function from the string to its 40 hexadecimal digits.
\<close>

definition review_id :: "(string \<Rightarrow> string) \<Rightarrow> string \<Rightarrow> string \<Rightarrow> string" where
  "review_id sha1_hex series_name review_text =
     (let text_hash = take 10 (sha1_hex (series_name @ take 120 review_text))
      in py_replace_char CHR '' '' CHR ''_'' (py_lower series_name) @ ''_'' @ text_hash)"

section \<open>The libraries the scraper calls\<close>

text \<open>
  The scraper drives a browser through Selenium. The browser, the remote site and the
  clock are the world \<open>'w\<close>; an element handle is an \<open>'e\<close>. Every library call is a
  function of the world that returns normally (\<open>Inr\<close>) or raises (\<open>Inl\<close>) and leaves
  a new world. Nothing is assumed about these functions: a theorem about the scraper
  holds for every behaviour of the browser and of the site. Console output is not
  modelled. The argument of \<open>time_sleep\<close> and the \<open>delay\<close> of the scraper are in
  milliseconds, the timeout of a wait is in seconds.
\<close>

datatype error = WebDriverException | ValueError | AttributeError

datatype By = XPATH | CSS_SELECTOR | TAG_NAME

type_synonym ('a, 'w) act = "'w \<Rightarrow> (error + 'a) \<times> 'w"

record ('w, 'e) library =
  webdriver_Chrome :: "string list \<Rightarrow> (unit, 'w) act"
  driver_get :: "string \<Rightarrow> (unit, 'w) act"
  driver_find_elements :: "By \<Rightarrow> string \<Rightarrow> ('e list, 'w) act"
  driver_execute_script :: "string \<Rightarrow> 'e list \<Rightarrow> (unit, 'w) act"
  driver_quit :: "'w \<Rightarrow> 'w"
  wait_until_presence :: "int \<Rightarrow> By \<Rightarrow> string \<Rightarrow> (unit, 'w) act"
  element_find_element :: "'e \<Rightarrow> By \<Rightarrow> string \<Rightarrow> ('e, 'w) act"
  element_find_elements :: "'e \<Rightarrow> By \<Rightarrow> string \<Rightarrow> ('e list, 'w) act"
  element_text :: "'e \<Rightarrow> (string option, 'w) act"
  element_get_attribute :: "'e \<Rightarrow> string \<Rightarrow> (string option, 'w) act"
  element_is_displayed :: "'e \<Rightarrow> (bool, 'w) act"
  element_click :: "'e \<Rightarrow> (unit, 'w) act"
  time_sleep :: "int \<Rightarrow> (unit, 'w) act"
  sha1_hexdigest :: "string \<Rightarrow> string"

text \<open>
  \<open>driver.quit()\<close> of the Chrome driver catches the faults of its own shutdown, so it
  is a transition of the world that always returns.
\<close>

definition seq :: "('a, 'w) act \<Rightarrow> ('a \<Rightarrow> ('b, 'w) act) \<Rightarrow> ('b, 'w) act" where
  \<comment> \<open>one statement after another: a raise skips the rest\<close>
  "seq m k w = (case m w of (Inl e, w') \<Rightarrow> (Inl e, w') | (Inr x, w') \<Rightarrow> k x w')"

record scraper =
  headless :: bool
  delay :: int

section \<open>Driver\<close>

definition DEFAULT_USER_AGENT :: string where
  "DEFAULT_USER_AGENT =
     ''Mozilla/5.0 (Windows NT 10.0; Win64; x64) '' @
     ''AppleWebKit/537.36 (KHTML, like Gecko) '' @
     ''Chrome/125.0.0.0 Safari/537.36''"

definition get_driver :: "('w, 'e) library \<Rightarrow> bool \<Rightarrow> (unit, 'w) act" where
  "get_driver L headless_flag =
     webdriver_Chrome L
       ((if headless_flag then [''--headless=new''] else []) @
        [''--no-sandbox'', ''--disable-dev-shm-usage'', ''--disable-gpu'',
         ''--window-size=1400,1000'', ''--disable-blink-features=AutomationControlled'',
         ''--lang=en-US,en;q=0.9'', ''--accept-language=en-US,en;q=0.9'',
         ''--user-agent='' @ DEFAULT_USER_AGENT])"

section \<open>Waits and render nudges\<close>

definition REVIEW_XPATH :: string where
  "REVIEW_XPATH =
     ''//div[contains(@class,'review')]'' @
     ''[.//div[contains(@class,'review-text') or contains(@class,'text')]]''"

definition wait_for_reviews :: "('w, 'e) library \<Rightarrow> int \<Rightarrow> 'w \<Rightarrow> 'w" where
  \<comment> \<open>\<open>try: WebDriverWait(driver, timeout).until(...) except Exception: pass\<close>\<close>
  "wait_for_reviews L timeout w = snd (wait_until_presence L timeout XPATH REVIEW_XPATH w)"

definition force_render :: "('w, 'e) library \<Rightarrow> 'w \<Rightarrow> 'w" where
  "force_render L w =
     snd (seq (driver_execute_script L
                 ''window.scrollTo(0, document.body.scrollHeight * 0.5);'' [])
           (\<lambda>_. seq (time_sleep L 200)
           (\<lambda>_. driver_execute_script L ''window.scrollTo(0, 0);'' [])) w)"

section \<open>Filters and sorting\<close>

definition JS_CLICK :: string where
  "JS_CLICK = ''arguments[0].click();''"

fun choose_option :: "('w, 'e) library \<Rightarrow> 'e \<Rightarrow> 'e list \<Rightarrow> (bool, 'w) act" where
  \<comment> \<open>\<open>for o in opts\<close>: the result is \<open>chosen\<close>\<close>
  "choose_option L sel [] w = (Inr False, w)"
| "choose_option L sel (opt # opts) w =
     seq (element_text L opt) (\<lambda>t.
     seq (element_get_attribute L opt ''value'') (\<lambda>v w2.
       let text = py_lower (py_or t []); val = py_lower (py_or v [])
       in if py_in ''recent'' val \<or> py_in ''new'' text \<or> py_in ''date'' text
          then seq (driver_execute_script L ''arguments[0].selected = true;'' [opt]) (\<lambda>_.
               seq (driver_execute_script L
                      ''arguments[0].dispatchEvent(new Event('change'));'' [sel]) (\<lambda>_.
               seq (time_sleep L 300) (\<lambda>_ w5. (Inr True, w5)))) w2
          else choose_option L sel opts w2)) w"

fun try_selects :: "('w, 'e) library \<Rightarrow> 'e list \<Rightarrow> 'w \<Rightarrow> 'w" where
  \<comment> \<open>\<open>for sel in selects\<close>, each round in its own \<open>try\<close>\<close>
  "try_selects L [] w = w"
| "try_selects L (sel # sels) w =
     (case seq (element_find_elements L sel TAG_NAME ''option'') (choose_option L sel) w of
        (Inl _, w') \<Rightarrow> try_selects L sels w'
      | (Inr chosen, w') \<Rightarrow> if chosen then w' else try_selects L sels w')"

fun click_first_displayed :: "('w, 'e) library \<Rightarrow> 'e list \<Rightarrow> (unit, 'w) act" where
  \<comment> \<open>\<open>for c in candidates\<close>: stops at the first displayed one whose click succeeds\<close>
  "click_first_displayed L [] w = (Inr (), w)"
| "click_first_displayed L (c # cs) w =
     seq (element_is_displayed L c) (\<lambda>shown w1.
       if shown
       then (case seq (driver_execute_script L JS_CLICK [c]) (\<lambda>_. time_sleep L 200) w1 of
               (Inl _, w2) \<Rightarrow> click_first_displayed L cs w2
             | (Inr _, w2) \<Rightarrow> (Inr (), w2))
       else click_first_displayed L cs w1) w"

fun click_each_displayed :: "('w, 'e) library \<Rightarrow> 'e list \<Rightarrow> (unit, 'w) act" where
  \<comment> \<open>\<open>for b in btns\<close>\<close>
  "click_each_displayed L [] w = (Inr (), w)"
| "click_each_displayed L (b # bs) w =
     seq (element_is_displayed L b) (\<lambda>shown w1.
       if shown
       then click_each_displayed L bs
              (snd (seq (driver_execute_script L JS_CLICK [b]) (\<lambda>_. time_sleep L 100) w1))
       else click_each_displayed L bs w1) w"

definition prepare_page_filters :: "('w, 'e) library \<Rightarrow> 'w \<Rightarrow> 'w" where
  "prepare_page_filters L w =
     (let w1 = (case driver_find_elements L CSS_SELECTOR ''select, .sort-select'' w of
                  (Inl _, w') \<Rightarrow> w'
                | (Inr selects, w') \<Rightarrow> try_selects L selects w');
          w2 = snd (seq (driver_find_elements L XPATH
                     (''//a[contains(.,'All Reviews') or contains(.,'All reviews') '' @
                      ''or contains(.,'All')]''))
                   (click_first_displayed L) w1);
          w3 = snd (seq (driver_find_elements L XPATH
                     ''//a[contains(.,'Show Spoilers') or contains(.,'Spoilers')]'')
                   (click_each_displayed L) w2)
      in w3)"

section \<open>Read-more expanders\<close>

fun click_buttons :: "('w, 'e) library \<Rightarrow> 'e list \<Rightarrow> nat \<Rightarrow> 'w \<Rightarrow> nat \<times> 'w" where
  \<comment> \<open>\<open>for btn in buttons\<close>: the result is \<open>clicked_round\<close>\<close>
  "click_buttons L [] clicked_round w = (clicked_round, w)"
| "click_buttons L (btn # btns) clicked_round w =
     (case seq (driver_execute_script L
                  ''arguments[0].scrollIntoView({block: 'center'});'' [btn]) (\<lambda>_.
           seq (time_sleep L 50) (\<lambda>_ w2.
             case element_click L btn w2 of
               (Inl _, w3) \<Rightarrow> driver_execute_script L JS_CLICK [btn] w3
             | (Inr _, w3) \<Rightarrow> (Inr (), w3))) w of
        (Inl _, w') \<Rightarrow> click_buttons L btns clicked_round w'
      | (Inr _, w') \<Rightarrow> click_buttons L btns (clicked_round + 1) w')"

fun read_more_passes :: "('w, 'e) library \<Rightarrow> nat \<Rightarrow> nat \<Rightarrow> (nat, 'w) act" where
  \<comment> \<open>the passes of \<open>for _ in range(3)\<close> still to run; the result is \<open>total_clicked\<close>\<close>
  "read_more_passes L 0 total_clicked w = (Inr total_clicked, w)"
| "read_more_passes L (Suc n) total_clicked w =
     seq (driver_find_elements L CSS_SELECTOR ''a.js-readmore'') (\<lambda>buttons w1.
       case click_buttons L buttons 0 w1 of (clicked_round, w2) \<Rightarrow>
         if clicked_round = 0 then (Inr (total_clicked + clicked_round), w2)
         else seq (time_sleep L 150)
                (\<lambda>_. read_more_passes L n (total_clicked + clicked_round)) w2) w"

definition click_all_read_more :: "('w, 'e) library \<Rightarrow> (nat, 'w) act" where
  "click_all_read_more L = read_more_passes L 3 0"

definition toggle_selectors :: "string list" where
  "toggle_selectors =
     [''a.js-readmore'', ''span.js-toggle-review-button'', ''button.js-toggle-review-button'',
      ''span.read-more'', ''button.read-more'', ''a.read-more'']"

definition JS_UNHIDE :: string where
  \<comment> \<open>the script of three lines, with its line breaks and indentation\<close>
  "JS_UNHIDE =
     [CHR 0x0A] @ replicate 16 CHR '' '' @ ''arguments[0]'' @
     [CHR 0x0A] @ replicate 18 CHR '' '' @
     ''.querySelectorAll('.hidden, .hide, .js-hidden, [style*='' @ [CHR 0x22] @
     ''display:none'' @ [CHR 0x22] @ '']')'' @
     [CHR 0x0A] @ replicate 18 CHR '' '' @
     ''.forEach(el => { el.style.display='inline'; '' @
     ''el.classList.remove('hidden','hide','js-hidden'); });'' @
     [CHR 0x0A] @ replicate 16 CHR '' ''"

fun click_toggles :: "('w, 'e) library \<Rightarrow> 'e list \<Rightarrow> 'w \<Rightarrow> 'w" where
  \<comment> \<open>\<open>for e in elems\<close>, each round in its own \<open>try\<close>\<close>
  "click_toggles L [] w = w"
| "click_toggles L (e # es) w =
     click_toggles L es
       (snd (seq (driver_execute_script L
                    ''arguments[0].scrollIntoView({block:'center'});'' [e]) (\<lambda>_.
             seq (time_sleep L 50) (\<lambda>_.
             seq (driver_execute_script L JS_CLICK [e]) (\<lambda>_.
             time_sleep L 80))) w))"

fun expand_selectors :: "('w, 'e) library \<Rightarrow> 'e \<Rightarrow> string list \<Rightarrow> 'w \<Rightarrow> 'w" where
  \<comment> \<open>\<open>for selector in toggle_selectors\<close>\<close>
  "expand_selectors L block [] w = w"
| "expand_selectors L block (selector # selectors) w =
     (case element_find_elements L block CSS_SELECTOR selector w of
        (Inl _, w') \<Rightarrow> expand_selectors L block selectors w'
      | (Inr elems, w') \<Rightarrow> expand_selectors L block selectors (click_toggles L elems w'))"

definition expand_review_in_block :: "('w, 'e) library \<Rightarrow> 'e \<Rightarrow> 'w \<Rightarrow> 'w" where
  "expand_review_in_block L block w =
     snd (driver_execute_script L JS_UNHIDE [block]
            (expand_selectors L block toggle_selectors w))"

section \<open>Block discovery\<close>

definition XPATHS :: "string list" where
  "XPATHS =
     [''//div[contains(@class,'review')]'' @
      ''[.//div[contains(@class,'review-text') or contains(@class,'text')]]'',
      ''//article[contains(@class,'review')]'' @
      ''[.//div[contains(@class,'review-text') or contains(@class,'text')]]'',
      ''//*[@class and contains(concat(' ',normalize-space(@class),' '),' review-element ')]'',
      ''//*[.//a[contains(@class,'js-readmore')] and '' @
      ''(.//div[contains(@class,'text')] or .//div[contains(@class,'review-text')])]'']"

fun first_nonempty_query :: "('w, 'e) library \<Rightarrow> string list \<Rightarrow> ('e list, 'w) act" where
  \<comment> \<open>\<open>for xp in XPATHS\<close>\<close>
  "first_nonempty_query L [] w = (Inr [], w)"
| "first_nonempty_query L (xp # xps) w =
     seq (driver_find_elements L XPATH xp) (\<lambda>elems w'.
       if elems \<noteq> [] then (Inr elems, w') else first_nonempty_query L xps w') w"

definition find_review_blocks :: "('w, 'e) library \<Rightarrow> ('e list, 'w) act" where
  "find_review_blocks L = first_nonempty_query L XPATHS"

section \<open>Parsing one block\<close>

record parsed_row =
  review_text :: string
  user_score :: "int option"
  recommendation :: string
  review_date :: string

definition TEXT_SELECTORS :: "string list" where
  "TEXT_SELECTORS = [''div.text'', ''div.review-text'', ''.text.readability'', ''.review-content'']"

fun first_text :: "('w, 'e) library \<Rightarrow> 'e \<Rightarrow> string list \<Rightarrow> string \<Rightarrow> 'w \<Rightarrow> string \<times> 'w" where
  \<comment> \<open>the first \<open>for sel in [...]\<close>: stops at the first non-empty text\<close>
  "first_text L block [] text w = (text, w)"
| "first_text L block (sel # sels) text w =
     (case seq (element_find_element L block CSS_SELECTOR sel) (element_text L) w of
        (Inl _, w') \<Rightarrow> first_text L block sels text w'
      | (Inr t, w') \<Rightarrow>
          let text = py_strip (py_or t [])
          in if text \<noteq> [] then (text, w') else first_text L block sels text w')"

definition looks_truncated :: "string \<Rightarrow> bool" where
  "looks_truncated text \<longleftrightarrow>
     text = [] \<or> (py_in ''...'' text \<and> length text < 400) \<or> length text < 120"

fun reread_text :: "('w, 'e) library \<Rightarrow> 'e \<Rightarrow> string list \<Rightarrow> string \<Rightarrow> 'w \<Rightarrow> string \<times> 'w" where
  \<comment> \<open>the second \<open>for sel in [...]\<close>: stops at the first text longer than the current one\<close>
  "reread_text L block [] text w = (text, w)"
| "reread_text L block (sel # sels) text w =
     (case seq (element_find_element L block CSS_SELECTOR sel) (element_text L) w of
        (Inl _, w') \<Rightarrow> reread_text L block sels text w'
      | (Inr t, w') \<Rightarrow>
          let t2 = py_strip (py_or t [])
          in if length t2 > length text then (t2, w') else reread_text L block sels text w')"

definition read_body_text :: "('w, 'e) library \<Rightarrow> 'e \<Rightarrow> (string, 'w) act" where
  \<comment> \<open>the text of the block, expanded if likely truncated; \<open>time.sleep\<close> may raise\<close>
  "read_body_text L block w =
     (case first_text L block TEXT_SELECTORS [] w of (text, w1) \<Rightarrow>
        if looks_truncated text
        then seq (time_sleep L 100)
               (\<lambda>_ w3. case reread_text L block TEXT_SELECTORS text w3 of
                          (text', w4) \<Rightarrow> (Inr text', w4))
               (expand_review_in_block L block w1)
        else (Inr text, w1))"

definition py_isdigit :: "string \<Rightarrow> bool" where
  \<comment> \<open>\<open>tok.isdigit()\<close>: the digits and the superscripts one, two and three\<close>
  "py_isdigit tok \<longleftrightarrow>
     tok \<noteq> [] \<and>
     list_all (\<lambda>c. let n = (of_char c :: nat)
                   in (48 \<le> n \<and> n \<le> 57) \<or> n = 178 \<or> n = 179 \<or> n = 185) tok"

definition py_int :: "string \<Rightarrow> error + int" where
  \<comment> \<open>\<open>int(tok)\<close> on a token of \<open>isdigit\<close> characters: the superscripts are no decimal
      digits; the interpreter's limit on the number of digits is left out\<close>
  "py_int tok =
     (if tok \<noteq> [] \<and> list_all (\<lambda>c. 48 \<le> (of_char c :: nat) \<and> (of_char c :: nat) \<le> 57) tok
      then Inr (foldl (\<lambda>acc c. 10 * acc + (of_char c - 48)) 0 tok)
      else Inl ValueError)"

fun scan_tokens :: "string list \<Rightarrow> error + int option" where
  \<comment> \<open>\<open>for tok in txt.split()\<close>: the result is \<open>score\<close>\<close>
  "scan_tokens [] = Inr None"
| "scan_tokens (tok # toks) =
     (if py_isdigit tok
      then (case py_int tok of
              Inl e \<Rightarrow> Inl e
            | Inr val \<Rightarrow> if 1 \<le> val \<and> val \<le> 10 then Inr (Some val) else scan_tokens toks)
      else scan_tokens toks)"

fun find_score :: "('w, 'e) library \<Rightarrow> 'e \<Rightarrow> string list \<Rightarrow> (int option, 'w) act" where
  "find_score L block [] w = (Inr None, w)"
| "find_score L block (sel # sels) w =
     (case seq (element_find_element L block CSS_SELECTOR sel)
                (\<lambda>el. element_get_attribute L el ''innerText'') w of
        (Inl _, w') \<Rightarrow> find_score L block sels w'
      | (Inr a, w') \<Rightarrow>
          (case scan_tokens (py_split (py_strip (py_or a []))) of
             Inl e \<Rightarrow> (Inl e, w')
           | Inr (Some val) \<Rightarrow> (Inr (Some val), w')
           | Inr None \<Rightarrow> find_score L block sels w'))"

definition classify_tag :: "string \<Rightarrow> string option" where
  \<comment> \<open>the three \<open>if\<close>s on the text of one tag, in the order of the source\<close>
  "classify_tag t =
     (if py_in ''Not Recommended'' t then Some ''Not Recommended''
      else if py_in ''Mixed Feelings'' t then Some ''Mixed Feelings''
      else if py_in ''Recommended'' t then Some ''Recommended''
      else None)"

fun scan_tags :: "('w, 'e) library \<Rightarrow> 'e list \<Rightarrow> (string, 'w) act" where
  \<comment> \<open>\<open>for tag in tags\<close>: the result is \<open>recommendation\<close>\<close>
  "scan_tags L [] w = (Inr [], w)"
| "scan_tags L (tag # tags) w =
     seq (element_text L tag) (\<lambda>x w'.
       let t = py_strip (py_or x [])
       in if t = [] then scan_tags L tags w'
          else (case classify_tag t of
                  Some r \<Rightarrow> (Inr r, w')
                | None \<Rightarrow> scan_tags L tags w')) w"

definition find_recommendation :: "('w, 'e) library \<Rightarrow> 'e \<Rightarrow> 'w \<Rightarrow> string \<times> 'w" where
  "find_recommendation L block w =
     (case seq (element_find_elements L block CSS_SELECTOR
                  ''.tag, .review-tag, .review-element .tag'') (scan_tags L) w of
        (Inl _, w') \<Rightarrow> ([], w')
      | (Inr r, w') \<Rightarrow> (r, w'))"

fun find_date :: "('w, 'e) library \<Rightarrow> 'e \<Rightarrow> string list \<Rightarrow> 'w \<Rightarrow> string \<times> 'w" where
  "find_date L block [] w = ([], w)"
| "find_date L block (sel # sels) w =
     (case seq (element_find_element L block CSS_SELECTOR sel) (element_text L) w of
        (Inl _, w') \<Rightarrow> find_date L block sels w'
      | (Inr None, w') \<Rightarrow> find_date L block sels w'
      | (Inr (Some t), w') \<Rightarrow>
          let dt = py_strip t
          in if dt \<noteq> [] then (dt, w') else find_date L block sels w')"

definition parse_review_block :: "('w, 'e) library \<Rightarrow> 'e \<Rightarrow> 'w \<Rightarrow> parsed_row option \<times> 'w" where
  \<comment> \<open>\<open>None\<close> is the \<open>None\<close> of the source, also returned by its \<open>except\<close>\<close>
  "parse_review_block L block w =
     (case read_body_text L block w of
        (Inl _, w1) \<Rightarrow> (None, w1)
      | (Inr text, w1) \<Rightarrow>
          if text = [] \<or> length text < 50 then (None, w1)
          else
            (case find_score L block [''div.score'', ''span.score'', ''.rating'', ''.num''] w1 of
               (Inl _, w2) \<Rightarrow> (None, w2)
             | (Inr score, w2) \<Rightarrow>
                 (case find_recommendation L block w2 of (tag, w3) \<Rightarrow>
                  case find_date L block
                         [''.update_at'', ''.update_on'', ''.review-date'', ''div.reviewer + div'']
                         w3 of (date_text, w4) \<Rightarrow>
                    (Some \<lparr>review_text = clean_review_text text, user_score = score,
                           recommendation = tag, review_date = date_text\<rparr>, w4))))"

section \<open>Entity helpers\<close>

definition entity_for :: "string \<Rightarrow> string" where
  "entity_for series_name =
     (case map_of [(''Naruto'', ''Naruto''), (''Naruto Shippuden'', ''Naruto''),
                   (''One Piece'', ''One Piece''), (''Bleach'', ''Bleach''),
                   (''Bleach TYBW Part 1'', ''Bleach''), (''Bleach TYBW Part 2'', ''Bleach'')]
             series_name of
        Some e \<Rightarrow> e | None \<Rightarrow> series_name)"

definition mal_id_for :: "string \<Rightarrow> int" where
  "mal_id_for series_name =
     (case map_of [(''Naruto'', 20), (''Naruto Shippuden'', 1735), (''One Piece'', 21),
                   (''Bleach'', 269), (''Bleach TYBW Part 1'', 41467),
                   (''Bleach TYBW Part 2'', 41468)]
             series_name of
        Some i \<Rightarrow> i | None \<Rightarrow> 0)"

section \<open>Pagination helper\<close>

fun decimal :: "nat \<Rightarrow> string" where
  "decimal n = (if n < 10 then [char_of (48 + n)] else decimal (n div 10) @ [char_of (48 + n mod 10)])"

definition py_str :: "int \<Rightarrow> string" where
  \<comment> \<open>an \<open>int\<close> inside an f-string\<close>
  "py_str i = (if i < 0 then ''-'' @ decimal (nat (- i)) else decimal (nat i))"

fun click_more_reviews ::
  "('w, 'e) library \<Rightarrow> scraper \<Rightarrow> 'e list \<Rightarrow> int \<Rightarrow> ((bool \<times> int) option, 'w) act" where
  \<comment> \<open>\<open>for a in links\<close>: \<open>Some\<close> is the \<open>return\<close> inside the loop, \<open>None\<close> its end\<close>
  "click_more_reviews L S [] pg w = (Inr None, w)"
| "click_more_reviews L S (a # links) pg w =
     seq (element_is_displayed L a) (\<lambda>shown w1.
       if shown
       then seq (driver_execute_script L
                   ''arguments[0].scrollIntoView({block:'center'});'' [a]) (\<lambda>_.
            seq (time_sleep L 100) (\<lambda>_ w3.
            seq (\<lambda>w. case element_click L a w of
                        (Inl _, w4) \<Rightarrow> driver_execute_script L JS_CLICK [a] w4
                      | (Inr _, w4) \<Rightarrow> (Inr (), w4)) (\<lambda>_ w5.
            seq (time_sleep L (delay S)) (\<lambda>_ w8. (Inr (Some (True, pg + 1)), w8))
              (force_render L (wait_for_reviews L 8 w5))) w3)) w1
       else click_more_reviews L S links pg w1) w"

definition goto_next_page ::
  "('w, 'e) library \<Rightarrow> scraper \<Rightarrow> string \<Rightarrow> int \<Rightarrow> (bool \<times> int, 'w) act" where
  "goto_next_page L S reviews_url pg w =
     (case seq (driver_find_elements L XPATH ''//a[contains(., 'More Reviews')]'')
               (\<lambda>links. click_more_reviews L S links pg) w of
        (Inr (Some r), w') \<Rightarrow> (Inr r, w')
      | (_, w') \<Rightarrow>
          seq (driver_get L (reviews_url @ ''?p='' @ py_str (pg + 1))) (\<lambda>_ w2.
          seq (time_sleep L (delay S)) (\<lambda>_ w5. (Inr (True, pg + 1), w5))
            (force_render L (wait_for_reviews L 8 w2))) w')"

section \<open>The scrape of one series\<close>

record review_row = parsed_row +
  entity :: string
  series_component :: string
  series_id :: int
  review_id_key :: string
  page_number :: int

text \<open>The local variables of \<open>scrape_reviews_for_series\<close> that the loop changes.\<close>

record harvest =
  reviews :: "review_row list"
  page :: int
  consecutive_empty :: int

definition MAX_EMPTY_PAGES :: int where
  "MAX_EMPTY_PAGES = 12"

definition MAX_PAGES :: int where
  "MAX_PAGES = 120"

text \<open>
  The places where the loop is left: its condition, one of its four \<open>break\<close>s, or the
  \<open>except\<close> clause around it.
\<close>

datatype exit_point =
  LoopCondition | EmptyStreakBreak | AdvanceFailedBreak | TargetBreak | ExceptionCaught

datatype step = Continue harvest | Leave exit_point harvest

definition update_row :: "('w, 'e) library \<Rightarrow> string \<Rightarrow> int \<Rightarrow> parsed_row \<Rightarrow> review_row" where
  \<comment> \<open>\<open>row.update({...})\<close>\<close>
  "update_row L series_name pg row =
     parsed_row.extend row
       (review_row.fields (entity_for series_name) series_name (mal_id_for series_name)
          (review_id (sha1_hexdigest L) series_name (review_text row)) pg)"

fun parse_blocks ::
  "('w, 'e) library \<Rightarrow> string \<Rightarrow> int \<Rightarrow> int \<Rightarrow> 'e list \<Rightarrow> review_row list \<Rightarrow> 'w
     \<Rightarrow> review_row list \<times> 'w" where
  \<comment> \<open>\<open>for block in blocks\<close>; \<open>parse_review_block\<close> never raises\<close>
  "parse_blocks L series_name pg target_reviews [] rows w = (rows, w)"
| "parse_blocks L series_name pg target_reviews (block # blocks) rows w =
     (if int (length rows) \<ge> target_reviews then (rows, w)
      else (case parse_review_block L block w of
              (None, w') \<Rightarrow> parse_blocks L series_name pg target_reviews blocks rows w'
            | (Some row, w') \<Rightarrow>
                parse_blocks L series_name pg target_reviews blocks
                  (rows @ [update_row L series_name pg row]) w'))"

definition advance ::
  "('w, 'e) library \<Rightarrow> scraper \<Rightarrow> string \<Rightarrow> harvest \<Rightarrow> 'w \<Rightarrow> step \<times> 'w" where
  \<comment> \<open>\<open>ok, page = self._goto_next_page(...)\<close> and the \<open>if not ok: break\<close> after it\<close>
  "advance L S reviews_url st w =
     (case goto_next_page L S reviews_url (page st) w of
        (Inl _, w') \<Rightarrow> (Leave ExceptionCaught st, w')
      | (Inr (ok, pg), w') \<Rightarrow>
          if \<not> ok then (Leave AdvanceFailedBreak (st\<lparr>page := pg\<rparr>), w')
          else (Continue (st\<lparr>page := pg\<rparr>), w'))"

definition loop_body ::
  "('w, 'e) library \<Rightarrow> scraper \<Rightarrow> string \<Rightarrow> string \<Rightarrow> int \<Rightarrow> harvest \<Rightarrow> 'w \<Rightarrow> step \<times> 'w" where
  \<comment> \<open>one round of the \<open>while\<close>\<close>
  "loop_body L S series_name reviews_url target_reviews st w =
     (case seq (click_all_read_more L) (\<lambda>_ w1.
           seq (time_sleep L 500) (\<lambda>_. find_review_blocks L) (force_render L w1)) w of
        (Inl _, w2) \<Rightarrow> (Leave ExceptionCaught st, w2)
      | (Inr blocks, w2) \<Rightarrow>
          if blocks = []
          then (let st1 = st\<lparr>consecutive_empty := consecutive_empty st + 1\<rparr>
                in if consecutive_empty st1 \<ge> MAX_EMPTY_PAGES then (Leave EmptyStreakBreak st1, w2)
                   else advance L S reviews_url st1 w2)
          else (let st1 = st\<lparr>consecutive_empty := 0\<rparr>
                in case parse_blocks L series_name (page st1) target_reviews blocks
                          (reviews st1) w2 of
                     (rows, w3) \<Rightarrow>
                       let st2 = st1\<lparr>reviews := rows\<rparr>
                       in if int (length (reviews st2)) \<ge> target_reviews
                          then (Leave TargetBreak st2, w3)
                          else advance L S reviews_url st2 w3))"

partial_function (option) paging_loop ::
  "('w, 'e) library \<Rightarrow> scraper \<Rightarrow> string \<Rightarrow> string \<Rightarrow> int \<Rightarrow> harvest \<Rightarrow> 'w
     \<Rightarrow> (exit_point \<times> harvest \<times> 'w) option" where
  "paging_loop L S series_name reviews_url target_reviews st w =
     (if int (length (reviews st)) < target_reviews \<and> page st \<le> MAX_PAGES
      then (case loop_body L S series_name reviews_url target_reviews st w of
              (Continue st', w') \<Rightarrow> paging_loop L S series_name reviews_url target_reviews st' w'
            | (Leave x st', w') \<Rightarrow> Some (x, st', w'))
      else Some (LoopCondition, st, w))"

definition page_one :: "('w, 'e) library \<Rightarrow> scraper \<Rightarrow> string \<Rightarrow> (unit, 'w) act" where
  \<comment> \<open>the statements of the \<open>try\<close> before the loop\<close>
  "page_one L S reviews_url =
     seq (driver_get L reviews_url) (\<lambda>_ w2.
       time_sleep L (delay S)
         (force_render L (prepare_page_filters L (wait_for_reviews L 12 w2))))"

definition scrape_run ::
  "('w, 'e) library \<Rightarrow> scraper \<Rightarrow> string \<Rightarrow> string \<Rightarrow> int \<Rightarrow> 'w
     \<Rightarrow> ((error + exit_point \<times> harvest) \<times> 'w) option" where
  \<comment> \<open>the run with the place where it left the loop; \<open>None\<close> is a run that never ends\<close>
  "scrape_run L S series_name reviews_url target_reviews w =
     (case get_driver L (headless S) w of
        (Inl e, w0) \<Rightarrow> Some (Inl e, w0)
      | (Inr _, w0) \<Rightarrow>
          let st0 = \<lparr>reviews = [], page = 1, consecutive_empty = 0\<rparr>
          in (case page_one L S reviews_url w0 of
                (Inl _, w1) \<Rightarrow> Some (Inr (ExceptionCaught, st0), driver_quit L w1)
              | (Inr _, w1) \<Rightarrow>
                  map_option (\<lambda>(x, st, w2). (Inr (x, st), driver_quit L w2))
                    (paging_loop L S series_name reviews_url target_reviews st0 w1)))"

definition scrape_reviews_for_series ::
  "('w, 'e) library \<Rightarrow> scraper \<Rightarrow> string \<Rightarrow> string \<Rightarrow> int \<Rightarrow> 'w
     \<Rightarrow> ((error + review_row list) \<times> 'w) option" where
  \<comment> \<open>what the method returns: the list \<open>reviews\<close>, or the exception of \<open>get_driver\<close>\<close>
  "scrape_reviews_for_series L S series_name reviews_url target_reviews w =
     map_option (\<lambda>(r, w'). (map_sum id (\<lambda>(x, st). reviews st) r, w'))
       (scrape_run L S series_name reviews_url target_reviews w)"

datatype stopped_reason = TargetReached | MaxPagesReached | EmptyPageStreak | SessionError

definition stopped_reason :: "int \<Rightarrow> exit_point \<Rightarrow> harvest \<Rightarrow> stopped_reason" where
  \<comment> \<open>Modelled from the spec: the source returns the list only and has no stop reason.
      The reason is read off the place where the loop is left, as the state machine of
      the harvester names them.\<close>
  "stopped_reason target_count x st =
     (case x of
        TargetBreak \<Rightarrow> TargetReached
      | LoopCondition \<Rightarrow>
          if int (length (reviews st)) \<ge> target_count then TargetReached else MaxPagesReached
      | EmptyStreakBreak \<Rightarrow> EmptyPageStreak
      | AdvanceFailedBreak \<Rightarrow> SessionError
      | ExceptionCaught \<Rightarrow> SessionError)"

definition state_of :: "step \<Rightarrow> harvest" where
  \<comment> \<open>the local variables after a round\<close>
  "state_of s = (case s of Continue st \<Rightarrow> st | Leave x st \<Rightarrow> st)"

section \<open>A small site for examples\<close>

text \<open>
  A site of one listing: every page that loads shows the same blocks, each block has one
  \<open>div.text\<close> child, and that child shows the first text of its pair until the hidden
  parts are revealed and the second text afterwards. The world is the flag "revealed".
  Only the addresses in \<open>pages\<close> load. A \<open>Label\<close> is an element that shows its string.
  The digest is a stand-in that maps every string to forty zeros.
\<close>

datatype elem = Block nat | TextDiv nat | Label string

definition site :: "string list \<Rightarrow> (string \<times> string) list \<Rightarrow> (bool, elem) library" where
  "site pages texts =
     \<lparr>webdriver_Chrome = (\<lambda>_ w. (Inr (), w)),
      driver_get = (\<lambda>url w. if url \<in> set pages then (Inr (), w) else (Inl WebDriverException, w)),
      driver_find_elements =
        (\<lambda>by q w. if by = XPATH \<and> q = hd XPATHS
                    then (Inr (map Block [0..<length texts]), w) else (Inr [], w)),
      driver_execute_script = (\<lambda>src args w. (Inr (), w \<or> src = JS_UNHIDE)),
      driver_quit = (\<lambda>w. w),
      wait_until_presence = (\<lambda>_ _ _ w. (Inr (), w)),
      element_find_element =
        (\<lambda>e by sel w. case e of
            Block i \<Rightarrow> if by = CSS_SELECTOR \<and> sel = ''div.text''
                       then (Inr (TextDiv i), w) else (Inl WebDriverException, w)
          | _ \<Rightarrow> (Inl WebDriverException, w)),
      element_find_elements = (\<lambda>_ _ _ w. (Inr [], w)),
      element_text =
        (\<lambda>e w. case e of
            TextDiv i \<Rightarrow> (Inr (Some ((if w then snd else fst) (texts ! i))), w)
          | Label s \<Rightarrow> (Inr (Some s), w)
          | Block i \<Rightarrow> (Inr (Some []), w)),
      element_get_attribute = (\<lambda>_ _ w. (Inr None, w)),
      element_is_displayed = (\<lambda>_ w. (Inr True, w)),
      element_click = (\<lambda>_ w. (Inr (), w)),
      time_sleep = (\<lambda>_ w. (Inr (), w)),
      sha1_hexdigest = (\<lambda>s. replicate 40 CHR ''0'')\<rparr>"

definition padded :: string where
  "padded = ''a'' @ replicate 48 CHR '' '' @ ''b''"

definition praise :: string where
  "praise = ''A long running story with a cast that grows on you over time.''"

definition default_scraper :: scraper where
  "default_scraper = \<lparr>headless = True, delay = 2000\<rparr>"

definition praise_row :: review_row where
  "praise_row =
     \<lparr>review_text = praise, user_score = None, recommendation = [], review_date = [],
      entity = ''Naruto'', series_component = ''Naruto'', series_id = 20,
      review_id_key = ''naruto_0000000000'', page_number = 1\<rparr>"

declare paging_loop.simps [code]

definition drifted_matches :: "string \<Rightarrow> elem list" where
  "drifted_matches xp =
     (if xp = XPATHS ! 2 then [Block 0, Block 1, Block 2]
      else if xp = XPATHS ! 3 then [Block 0, Block 1, Block 2, Block 3]
      else [])"

definition drifted_site :: "(bool, elem) library" where
  "drifted_site = (site [] [])\<lparr>driver_find_elements := (\<lambda>by q w. (Inr (drifted_matches q), w))\<rparr>"


definition great_show :: "(bool, elem) library" where
  "great_show = site [''u''] [(''Great show...'', replicate 600 CHR ''x'')]"



definition read_and_gated :: "('w, 'e) library \<Rightarrow> string \<Rightarrow> bool" where
  \<comment> \<open>the text is the text of a parsed row, and is the cleaned form of the body that
      was read from the block of that row and counted at least 50 characters\<close>
  "read_and_gated L s \<longleftrightarrow>
     (\<exists>block w w1 w2 row body.
        parse_review_block L block w = (Some row, w1) \<and> review_text row = s \<and>
        read_body_text L block w = (Inr body, w2) \<and> 50 \<le> length body \<and>
        s = clean_review_text body)"

definition reread_candidate :: "error + string option \<Rightarrow> string" where
  \<comment> \<open>what one selector offers to the second reading: the stripped text of its element,
      or nothing when the lookup or the read raised\<close>
  "reread_candidate r = (case r of Inl _ \<Rightarrow> [] | Inr x \<Rightarrow> py_strip (py_or x []))"

definition great_show_reads :: "string \<Rightarrow> error + string option" where
  \<comment> \<open>what the selectors of the text show on \<open>great_show\<close> once the block is expanded\<close>
  "great_show_reads sel =
     (if sel = ''div.text'' then Inr (Some (replicate 600 CHR ''x''))
      else Inl WebDriverException)"


definition long_text :: "(bool, elem) library" where
  "long_text = site [''u''] [(replicate 120 CHR ''y'', replicate 600 CHR ''x'')]"

definition short_row :: review_row where
  "short_row =
     \<lparr>review_text = ''a b'', user_score = None, recommendation = [], review_date = [],
      entity = ''Naruto'', series_component = ''Naruto'', series_id = 20,
      review_id_key = ''naruto_0000000000'', page_number = 1\<rparr>"

section \<open>Properties of the review identifier\<close>

lemma update_row_review_id:
  "review_id_key (update_row L n pg row) = review_id (sha1_hexdigest L) n (review_text row)"
  by (simp add: update_row_def parsed_row.defs review_row.defs)

text \<open>
  C10. The review identifier depends on the series name and on the first 120
  characters of the review text only: two texts of the same series that agree on their
  first 120 characters get the same identifier, whatever follows, and so do two rows
  of the series with these texts, on whatever pages they were found.
\<close>

theorem review_id_prefix_only:
  assumes "take 120 t1 = take 120 t2"
  shows "review_id h s t1 = review_id h s t2 \<and>
         review_id_key (update_row L s pg1 (row1\<lparr>review_text := t1\<rparr>))
           = review_id_key (update_row L s pg2 (row2\<lparr>review_text := t2\<rparr>))"
  using assms by (simp add: update_row_review_id review_id_def)

theorem review_id_prefix_only_witness:
  "take 120 (replicate 120 CHR ''a'' @ ''x'') = take 120 (replicate 120 CHR ''a'' @ ''y'') \<and>
   replicate 120 CHR ''a'' @ ''x'' \<noteq> replicate 120 CHR ''a'' @ ''y'' \<and>
   review_id (\<lambda>s. s) ''Naruto'' (replicate 120 CHR ''a'' @ ''x'')
     = review_id (\<lambda>s. s) ''Naruto'' (replicate 120 CHR ''a'' @ ''y'') \<and>
   review_id_key (update_row (site [] []) ''Naruto'' 1
       \<lparr>review_text = replicate 120 CHR ''a'' @ ''x'', user_score = None,
        recommendation = [], review_date = []\<rparr>)
     = review_id_key (update_row (site [] []) ''Naruto'' 2
       \<lparr>review_text = replicate 120 CHR ''a'' @ ''y'', user_score = Some 7,
        recommendation = ''Recommended'', review_date = []\<rparr>)"
proof -
  have h: "take 120 (replicate 120 CHR ''a'' @ ''x'') = take 120 (replicate 120 CHR ''a'' @ ''y'')"
    by simp
  have d: "replicate 120 CHR ''a'' @ ''x'' \<noteq> replicate 120 CHR ''a'' @ ''y''"
    by simp
  from review_id_prefix_only [OF h, of "\<lambda>s. s" "''Naruto''" "site [] []" 1
      "\<lparr>review_text = [], user_score = None, recommendation = [], review_date = []\<rparr>" 2
      "\<lparr>review_text = [], user_score = Some 7, recommendation = ''Recommended'',
        review_date = []\<rparr>"] h d
  show ?thesis by simp
qed

section \<open>Control flow of the paging loop\<close>


lemma seq_Inr_iff:
  "seq m k w = (Inr y, w') \<longleftrightarrow> (\<exists>x w1. m w = (Inr x, w1) \<and> k x w1 = (Inr y, w'))"
  by (auto simp: seq_def split: prod.splits sum.splits)

lemma click_more_reviews_Some:
  "click_more_reviews L S links pg w = (Inr (Some r), w') \<Longrightarrow> r = (True, pg + 1)"
proof (induction links arbitrary: w)
  case Nil
  then show ?case by simp
next
  case (Cons a links)
  then show ?case
    by (auto simp: seq_Inr_iff split: if_splits)
qed

lemma goto_next_page_returns:
  "goto_next_page L S reviews_url pg w = (Inr r, w') \<Longrightarrow> r = (True, pg + 1)"
  unfolding goto_next_page_def
  by (auto simp: seq_Inr_iff split: prod.splits sum.splits option.splits
           dest: click_more_reviews_Some)

lemma advance_Continue:
  "advance L S u st w = (Continue st', w') \<Longrightarrow> st' = st\<lparr>page := page st + 1\<rparr>"
  unfolding advance_def
  by (auto split: prod.splits sum.splits if_splits dest: goto_next_page_returns)

lemma advance_Leave:
  "advance L S u st w = (Leave x st', w') \<Longrightarrow> x = ExceptionCaught \<and> st' = st"
  unfolding advance_def
  by (auto split: prod.splits sum.splits if_splits dest: goto_next_page_returns)

lemma parse_blocks_length:
  "int (length (fst (parse_blocks L n pg t blocks rows w))) \<le> max (int (length rows)) t"
proof (induction blocks arbitrary: rows w)
  case Nil
  then show ?case by simp
next
  case (Cons b blocks)
  show ?case
  proof (cases "int (length rows) \<ge> t")
    case True
    then show ?thesis by simp
  next
    case False
    obtain r w' where p: "parse_review_block L b w = (r, w')"
      by (cases "parse_review_block L b w")
    show ?thesis
    proof (cases r)
      case None
      with p False Cons.IH [of rows w'] show ?thesis by simp
    next
      case (Some row)
      with p False Cons.IH [of "rows @ [update_row L n pg row]" w'] show ?thesis by simp
    qed
  qed
qed

lemma parse_blocks_prefix:
  "prefix rows (fst (parse_blocks L n pg t blocks rows w))"
proof (induction blocks arbitrary: rows w)
  case Nil
  then show ?case by simp
next
  case (Cons b blocks)
  obtain r w' where p: "parse_review_block L b w = (r, w')"
    by (cases "parse_review_block L b w")
  show ?case
  proof (cases r)
    case None
    with p Cons.IH [of rows w'] show ?thesis by simp
  next
    case (Some row)
    with p Cons.IH [of "rows @ [update_row L n pg row]" w'] show ?thesis
      by (auto dest: append_prefixD)
  qed
qed

lemma parse_blocks_prefix_eq:
  "parse_blocks L n pg t blocks rows w = (rows', w') \<Longrightarrow> prefix rows rows'"
  using parse_blocks_prefix [of rows L n pg t blocks w] by simp

lemma parse_blocks_length_eq:
  "parse_blocks L n pg t blocks rows w = (rows', w')
     \<Longrightarrow> int (length rows') \<le> max (int (length rows)) t"
  using parse_blocks_length [of L n pg t blocks rows w] by simp

lemma loop_body_Continue:
  assumes "loop_body L S n u t st w = (Continue st', w')"
  shows "page st' = page st + 1"
    and "prefix (reviews st) (reviews st')"
    and "int (length (reviews st)) < t \<Longrightarrow> int (length (reviews st')) < t"
  using assms unfolding loop_body_def
  by (auto simp: Let_def split: prod.splits sum.splits if_splits
           dest!: advance_Continue parse_blocks_prefix_eq)

lemma loop_body_Leave:
  assumes "loop_body L S n u t st w = (Leave x st', w')"
  shows "prefix (reviews st) (reviews st')"
    and "int (length (reviews st')) \<le> max (int (length (reviews st))) t"
    and "x \<noteq> AdvanceFailedBreak"
    and "x = TargetBreak \<Longrightarrow> t \<le> int (length (reviews st'))"
    and "x \<noteq> TargetBreak \<Longrightarrow> int (length (reviews st)) < t \<Longrightarrow> int (length (reviews st')) < t"
  using assms unfolding loop_body_def
  by (auto simp: Let_def split: prod.splits sum.splits if_splits
           dest!: advance_Leave dest: parse_blocks_prefix_eq parse_blocks_length_eq)

lemma paging_loop_rule:
  assumes stop: "\<And>st w. \<not> (int (length (reviews st)) < t \<and> page st \<le> MAX_PAGES)
                  \<Longrightarrow> P st (LoopCondition, st, w)"
    and leave: "\<And>st w x st' w'. int (length (reviews st)) < t \<Longrightarrow> page st \<le> MAX_PAGES
                  \<Longrightarrow> loop_body L S n u t st w = (Leave x st', w') \<Longrightarrow> P st (x, st', w')"
    and continue: "\<And>st w st1 w1 r. int (length (reviews st)) < t \<Longrightarrow> page st \<le> MAX_PAGES
                  \<Longrightarrow> loop_body L S n u t st w = (Continue st1, w1) \<Longrightarrow> P st1 r \<Longrightarrow> P st r"
  shows "\<exists>r. paging_loop L S n u t st w = Some r \<and> P st r"
proof (induction "nat (MAX_PAGES + 1 - page st)" arbitrary: st w rule: less_induct)
  case less
  show ?case
  proof (cases "int (length (reviews st)) < t \<and> page st \<le> MAX_PAGES")
    case False
    then have "paging_loop L S n u t st w = Some (LoopCondition, st, w)"
      by (subst paging_loop.simps) auto
    with stop [OF False] show ?thesis by simp
  next
    case True
    obtain s w1 where body: "loop_body L S n u t st w = (s, w1)"
      by (cases "loop_body L S n u t st w")
    show ?thesis
    proof (cases s)
      case (Continue st1)
      with body have b: "loop_body L S n u t st w = (Continue st1, w1)" by simp
      then have "page st1 = page st + 1" by (rule loop_body_Continue)
      with True have "nat (MAX_PAGES + 1 - page st1) < nat (MAX_PAGES + 1 - page st)" by simp
      from less [OF this] obtain r
        where r: "paging_loop L S n u t st1 w1 = Some r" "P st1 r" by blast
      have "paging_loop L S n u t st w = Some r"
        using True b r(1) by (subst paging_loop.simps) simp
      moreover have "P st r" using continue True b r(2) by blast
      ultimately show ?thesis by simp
    next
      case (Leave x st')
      with body have b: "loop_body L S n u t st w = (Leave x st', w1)" by simp
      have "paging_loop L S n u t st w = Some (x, st', w1)"
        using True b by (subst paging_loop.simps) simp
      moreover have "P st (x, st', w1)" using leave True b by blast
      ultimately show ?thesis by simp
    qed
  qed
qed

lemma paging_loop_returns:
  "\<exists>r. paging_loop L S n u t st w = Some r"
proof -
  have "\<exists>r. paging_loop L S n u t st w = Some r \<and> True"
    by (rule paging_loop_rule [where P = "\<lambda>_ _. True"]) simp_all
  then show ?thesis by simp
qed

lemma paging_loop_length:
  "paging_loop L S n u t st w = Some (x, st', w')
     \<Longrightarrow> int (length (reviews st')) \<le> max (int (length (reviews st))) t"
proof -
  have "\<exists>r. paging_loop L S n u t st w = Some r
          \<and> (case r of (x, st', w') \<Rightarrow> int (length (reviews st')) \<le> max (int (length (reviews st))) t)"
  proof (rule paging_loop_rule, goal_cases)
    case (1 st w)
    then show ?case by simp
  next
    case (2 st w x st' w')
    then show ?case using loop_body_Leave(2) by fastforce
  next
    case (3 st w st1 w1 r)
    then show ?case using loop_body_Continue(3) [OF 3(3)] by (auto simp: max_def)
  qed
  then show "paging_loop L S n u t st w = Some (x, st', w')
     \<Longrightarrow> int (length (reviews st')) \<le> max (int (length (reviews st))) t"
    by auto
qed


section \<open>The run as a whole\<close>

lemma scrape_run_cases:
  assumes "scrape_run L S n u t w = Some (Inr (x, st), w')"
  obtains w1 where "x = ExceptionCaught" "st = \<lparr>reviews = [], page = 1, consecutive_empty = 0\<rparr>"
      "w' = driver_quit L w1"
  | w1 w2 where "paging_loop L S n u t \<lparr>reviews = [], page = 1, consecutive_empty = 0\<rparr> w1
                   = Some (x, st, w2)" "w' = driver_quit L w2"
  using assms unfolding scrape_run_def
  by (auto simp: Let_def split: prod.splits sum.splits)

lemma scrape_reviews_for_series_Inr:
  "scrape_reviews_for_series L S n u t w = Some (Inr rs, w')
     \<longleftrightarrow> (\<exists>x st. scrape_run L S n u t w = Some (Inr (x, st), w') \<and> rs = reviews st)"
  unfolding scrape_reviews_for_series_def
  by (cases "scrape_run L S n u t w") (auto simp: map_sum_def split: sum.splits)

lemma scrape_run_returns: "\<exists>r. scrape_run L S n u t w = Some r"
  unfolding scrape_run_def using paging_loop_returns [of L S n u t]
  by (fastforce simp: Let_def split: prod.splits sum.splits)

lemma parse_blocks_stops:
  "t \<le> int (length rows) \<Longrightarrow> parse_blocks L n pg t blocks rows w = (rows, w)"
  by (cases blocks) simp_all

text \<open>
  C1. A run with target \<open>t\<close> never returns more than \<open>t\<close> records, and once \<open>t\<close>
  records are held no further block of the page is read.
\<close>

theorem harvest_never_exceeds_target:
  assumes "0 \<le> t"
  shows "(scrape_reviews_for_series L S n u t w = Some (Inr rs, w') \<longrightarrow>
            0 \<le> int (length rs) \<and> int (length rs) \<le> t) \<and>
         (t \<le> int (length rows) \<longrightarrow> parse_blocks L n pg t blocks rows w1 = (rows, w1))"
proof (intro conjI impI)
  assume res: "scrape_reviews_for_series L S n u t w = Some (Inr rs, w')"
  then obtain x st where run: "scrape_run L S n u t w = Some (Inr (x, st), w')"
    and rs: "rs = reviews st"
    by (auto simp: scrape_reviews_for_series_Inr)
  from run have "int (length (reviews st)) \<le> t"
  proof (cases rule: scrape_run_cases)
    case (1 w1)
    with assms show ?thesis by simp
  next
    case (2 w1 w2)
    from paging_loop_length [OF 2(1)] assms show ?thesis by simp
  qed
  with rs show "int (length rs) \<le> t" by simp
  show "0 \<le> int (length rs)" by simp
next
  assume "t \<le> int (length rows)"
  then show "parse_blocks L n pg t blocks rows w1 = (rows, w1)" by (rule parse_blocks_stops)
qed

lemma two_blocks_target_one:
  "scrape_reviews_for_series (site [''u''] [(praise, praise), (praise, praise)])
     default_scraper ''Naruto'' ''u'' 1 False = Some (Inr [praise_row], True)"
  by code_simp

theorem harvest_never_exceeds_target_witness:
  "(0::int) \<le> 1 \<and>
   scrape_reviews_for_series (site [''u''] [(praise, praise), (praise, praise)])
     default_scraper ''Naruto'' ''u'' 1 False = Some (Inr [praise_row], True) \<and>
   0 \<le> int (length [praise_row]) \<and> int (length [praise_row]) \<le> 1 \<and>
   (1::int) \<le> int (length [praise_row]) \<and>
   parse_blocks (site [''u''] [(praise, praise), (praise, praise)]) ''Naruto'' 1 1 [Block 1]
     [praise_row] True = ([praise_row], True)"
proof -
  have z: "(0::int) \<le> 1" by simp
  have one: "(1::int) \<le> int (length [praise_row])" by simp
  from harvest_never_exceeds_target [OF z, of "site [''u''] [(praise, praise), (praise, praise)]"
      default_scraper "''Naruto''" "''u''" False "[praise_row]" True "[praise_row]"
      1 "[Block 1]" True] two_blocks_target_one one
  have "parse_blocks (site [''u''] [(praise, praise), (praise, praise)]) ''Naruto'' 1 1 [Block 1]
          [praise_row] True = ([praise_row], True)"
    by blast
  with two_blocks_target_one show ?thesis by simp
qed

text \<open>
  C2. Every run ends: it returns a list or raises the exception of the driver's
  creation. A round that goes on to the next one has moved to the next page and has
  seen fewer than twelve empty pages in a row.
\<close>

theorem scrape_terminates:
  "(\<exists>r. scrape_reviews_for_series L S n u t w = Some r) \<and>
   (\<forall>st w1 st' w2. loop_body L S n u t st w1 = (Continue st', w2) \<longrightarrow>
      page st' = page st + 1 \<and> consecutive_empty st' < MAX_EMPTY_PAGES)"
proof
  show "\<exists>r. scrape_reviews_for_series L S n u t w = Some r"
    using scrape_run_returns [of L S n u t w] by (auto simp: scrape_reviews_for_series_def)
  show "\<forall>st w1 st' w2. loop_body L S n u t st w1 = (Continue st', w2) \<longrightarrow>
      page st' = page st + 1 \<and> consecutive_empty st' < MAX_EMPTY_PAGES"
    unfolding loop_body_def
    by (auto simp: Let_def MAX_EMPTY_PAGES_def split: prod.splits sum.splits if_splits
             dest!: advance_Continue)
qed


lemma one_block_continues:
  "loop_body (site [''u'', ''u?p=2''] [(praise, praise)]) default_scraper ''Naruto'' ''u'' 2
     \<lparr>reviews = [], page = 1, consecutive_empty = 0\<rparr> False
   = (Continue \<lparr>reviews = [praise_row], page = 2, consecutive_empty = 0\<rparr>, True)"
  by code_simp

theorem scrape_terminates_witness:
  "(\<exists>r. scrape_reviews_for_series (site [''u'', ''u?p=2''] [(praise, praise)])
           default_scraper ''Naruto'' ''u'' 2 False = Some r) \<and>
   loop_body (site [''u'', ''u?p=2''] [(praise, praise)]) default_scraper ''Naruto'' ''u'' 2
     \<lparr>reviews = [], page = 1, consecutive_empty = 0\<rparr> False
   = (Continue \<lparr>reviews = [praise_row], page = 2, consecutive_empty = 0\<rparr>, True) \<and>
   page \<lparr>reviews = [praise_row], page = 2, consecutive_empty = 0\<rparr>
     = page \<lparr>reviews = [], page = 1, consecutive_empty = 0\<rparr> + 1 \<and>
   consecutive_empty \<lparr>reviews = [praise_row], page = 2, consecutive_empty = 0\<rparr>
     < MAX_EMPTY_PAGES"
  using scrape_terminates [of "site [''u'', ''u?p=2''] [(praise, praise)]" default_scraper
      "''Naruto''" "''u''" 2 False] one_block_continues
  by blast

lemma paging_loop_prefix:
  assumes "paging_loop L S n u t st w = Some (x, st', w')"
  shows "prefix (reviews st) (reviews st')"
proof -
  have "\<exists>r. paging_loop L S n u t st w = Some r
          \<and> (case r of (x, st', w') \<Rightarrow> prefix (reviews st) (reviews st'))"
  proof (rule paging_loop_rule, goal_cases)
    case (1 st w)
    then show ?case by simp
  next
    case (2 st w x st' w')
    then show ?case using loop_body_Leave(1) by fastforce
  next
    case (3 st w st1 w1 r)
    then show ?case using loop_body_Continue(2) [OF 3(3)] by (auto intro: prefix_order.trans)
  qed
  with assms show ?thesis by auto
qed

lemma paging_loop_reason:
  assumes "paging_loop L S n u t st w = Some (x, st', w')"
    and "int (length (reviews st)) \<le> t"
  shows "stopped_reason t x st' = TargetReached \<longleftrightarrow> int (length (reviews st')) = t"
proof -
  have "\<exists>r. paging_loop L S n u t st w = Some r
          \<and> (case r of (x, st', w') \<Rightarrow> int (length (reviews st)) \<le> t \<longrightarrow>
                (stopped_reason t x st' = TargetReached \<longleftrightarrow> int (length (reviews st')) = t))"
  proof (rule paging_loop_rule, goal_cases)
    case (1 st w)
    then show ?case by (auto simp: stopped_reason_def)
  next
    case (2 st w x st' w')
    from loop_body_Leave [OF 2(3)] 2(1) show ?case
      by (cases x) (auto simp: stopped_reason_def)
  next
    case (3 st w st1 w1 r)
    then show ?case using loop_body_Continue(3) [OF 3(3)] by (auto simp: max_def)
  qed
  with assms show ?thesis by auto
qed

text \<open>
  C3. For a positive target, a run stops with reason TargetReached if and only if it
  returns exactly \<open>target_count\<close> records.
\<close>

theorem target_reached_iff_full:
  assumes "0 < t" and "scrape_run L S n u t w = Some (Inr (x, st), w')"
  shows "stopped_reason t x st = TargetReached \<longleftrightarrow> int (length (reviews st)) = t"
  using assms(2)
proof (cases rule: scrape_run_cases)
  case (1 w1)
  with assms(1) show ?thesis by (simp add: stopped_reason_def)
next
  case (2 w1 w2)
  from paging_loop_reason [OF 2(1)] assms(1) show ?thesis by simp
qed

lemma two_blocks_target_one_run:
  "scrape_run (site [''u''] [(praise, praise), (praise, praise)])
     default_scraper ''Naruto'' ''u'' 1 False
   = Some (Inr (TargetBreak, \<lparr>reviews = [praise_row], page = 1, consecutive_empty = 0\<rparr>), True)"
  by code_simp

theorem target_reached_iff_full_witness:
  "(0::int) < 1 \<and>
   scrape_run (site [''u''] [(praise, praise), (praise, praise)])
     default_scraper ''Naruto'' ''u'' 1 False
   = Some (Inr (TargetBreak, \<lparr>reviews = [praise_row], page = 1, consecutive_empty = 0\<rparr>), True) \<and>
   (stopped_reason 1 TargetBreak \<lparr>reviews = [praise_row], page = 1, consecutive_empty = 0\<rparr>
      = TargetReached
    \<longleftrightarrow> int (length (reviews \<lparr>reviews = [praise_row], page = 1, consecutive_empty = 0\<rparr>)) = 1)"
  using target_reached_iff_full [OF _ two_blocks_target_one_run] two_blocks_target_one_run
  by simp

text \<open>
  C7. A call of \<open>_goto_next_page\<close> that returns, returns \<open>(True, page + 1)\<close>.
\<close>

theorem goto_next_page_result:
  "goto_next_page L S reviews_url pg w = (Inr r, w') \<Longrightarrow> r = (True, pg + 1)"
  by (rule goto_next_page_returns)

lemma goto_page_two:
  "goto_next_page (site [''u'', ''u?p=2''] []) default_scraper ''u'' 1 False = (Inr (True, 2), False)"
  by code_simp

theorem goto_next_page_result_witness:
  "goto_next_page (site [''u'', ''u?p=2''] []) default_scraper ''u'' 1 False
     = (Inr (True, 2), False) \<and> (True, 2) = (True, (1::int) + 1)"
  using goto_next_page_result [OF goto_page_two] goto_page_two by simp

section \<open>Block discovery and faults\<close>

lemma first_nonempty_query_static:
  assumes "\<forall>xp \<in> set xps. driver_find_elements L XPATH xp w = (Inr (q xp), w)"
  shows "first_nonempty_query L xps w
           = (Inr (case find (\<lambda>xp. q xp \<noteq> []) xps of None \<Rightarrow> [] | Some xp \<Rightarrow> q xp), w)"
  using assms by (induction xps) (auto simp: seq_def)

lemma first_nonempty_query_single:
  assumes "first_nonempty_query L xps w = (Inr es, w')" and "es \<noteq> []"
  shows "\<exists>xp \<in> set xps. \<exists>w0. driver_find_elements L XPATH xp w0 = (Inr es, w')"
  using assms
proof (induction xps arbitrary: w)
  case Nil
  then show ?case by simp
next
  case (Cons xp xps)
  from Cons.prems(1) obtain elems w1 where q: "driver_find_elements L XPATH xp w = (Inr elems, w1)"
    and rest: "(if elems \<noteq> [] then (Inr elems, w1) else first_nonempty_query L xps w1) = (Inr es, w')"
    by (auto simp: seq_Inr_iff)
  show ?case
  proof (cases "elems = []")
    case True
    with rest Cons.IH [of w1] Cons.prems(2) show ?thesis by auto
  next
    case False
    with rest q show ?thesis by auto
  qed
qed

text \<open>
  C5. The block locator runs its queries in the order of the list and returns the
  matches of the first query that has any, or the empty list when none has. On a page
  that answers each query \<open>xp\<close> with \<open>q xp\<close>, the result is \<open>q\<close> of the first query
  whose answer is not empty; and on any page, a non-empty result is the answer of one
  single query, never several answers put together.
\<close>

theorem find_review_blocks_first_match:
  "((\<forall>xp \<in> set XPATHS. driver_find_elements L XPATH xp w = (Inr (q xp), w)) \<longrightarrow>
      find_review_blocks L w
        = (Inr (case find (\<lambda>xp. q xp \<noteq> []) XPATHS of None \<Rightarrow> [] | Some xp \<Rightarrow> q xp), w)) \<and>
   (find_review_blocks L w = (Inr es, w') \<and> es \<noteq> [] \<longrightarrow>
      (\<exists>xp \<in> set XPATHS. \<exists>w0. driver_find_elements L XPATH xp w0 = (Inr es, w')))"
  unfolding find_review_blocks_def
  using first_nonempty_query_static [of XPATHS L w q] first_nonempty_query_single [of L XPATHS w es w']
  by blast

lemma drifted_static:
  "\<forall>xp \<in> set XPATHS. driver_find_elements drifted_site XPATH xp False = (Inr (drifted_matches xp), False)"
  by (simp add: drifted_site_def)

lemma drifted_answers:
  "driver_find_elements drifted_site XPATH (XPATHS ! 0) False = (Inr [], False)"
  "driver_find_elements drifted_site XPATH (XPATHS ! 1) False = (Inr [], False)"
  "driver_find_elements drifted_site XPATH (XPATHS ! 2) False
     = (Inr [Block 0, Block 1, Block 2], False)"
  "driver_find_elements drifted_site XPATH (XPATHS ! 3) False
     = (Inr [Block 0, Block 1, Block 2, Block 3], False)"
  by code_simp+

theorem find_review_blocks_first_match_witness:
  "driver_find_elements drifted_site XPATH (XPATHS ! 0) False = (Inr [], False) \<and>
   driver_find_elements drifted_site XPATH (XPATHS ! 1) False = (Inr [], False) \<and>
   driver_find_elements drifted_site XPATH (XPATHS ! 2) False
     = (Inr [Block 0, Block 1, Block 2], False) \<and>
   driver_find_elements drifted_site XPATH (XPATHS ! 3) False
     = (Inr [Block 0, Block 1, Block 2, Block 3], False) \<and>
   find_review_blocks drifted_site False = (Inr [Block 0, Block 1, Block 2], False)"
proof -
  note inst = find_review_blocks_first_match [of drifted_site False drifted_matches
        "[Block 0, Block 1, Block 2]" False]
  from inst drifted_static
  have "find_review_blocks drifted_site False
          = (Inr (case find (\<lambda>xp. drifted_matches xp \<noteq> []) XPATHS of
                    None \<Rightarrow> [] | Some xp \<Rightarrow> drifted_matches xp), False)"
    by blast
  also have "(case find (\<lambda>xp. drifted_matches xp \<noteq> []) XPATHS of
                None \<Rightarrow> [] | Some xp \<Rightarrow> drifted_matches xp) = [Block 0, Block 1, Block 2]"
    by code_simp
  finally show ?thesis using drifted_answers by blast
qed

text \<open>
  C9. Once the driver exists, the run returns a list and closes the session, whatever
  fails afterwards: the empty list when the first page fails to open, and otherwise the
  records of the state in which the loop was left, with the session closed in the
  world the loop ended in. A round that ends in a fault ends the loop in the state of
  that round, a round that goes on hands its state to the rest of the loop, and in
  both the records the round started with are the first records of its state. When the
  fault is raised by the move to the next page, the records parsed in that round are
  in the state the loop is left in.
\<close>

theorem fault_keeps_partial_records:
  "(get_driver L (headless S) w = (Inr (), w0) \<longrightarrow>
      (\<exists>x st w'. scrape_run L S n u t w = Some (Inr (x, st), driver_quit L w') \<and>
         scrape_reviews_for_series L S n u t w = Some (Inr (reviews st), driver_quit L w'))) \<and>
   (get_driver L (headless S) w = (Inr (), w0) \<and> page_one L S u w0 = (Inl e, w1) \<longrightarrow>
      scrape_reviews_for_series L S n u t w = Some (Inr [], driver_quit L w1)) \<and>
   (get_driver L (headless S) w = (Inr (), w0) \<and> page_one L S u w0 = (Inr (), w1) \<and>
    paging_loop L S n u t \<lparr>reviews = [], page = 1, consecutive_empty = 0\<rparr> w1 = Some (x, st, w2) \<longrightarrow>
      scrape_reviews_for_series L S n u t w = Some (Inr (reviews st), driver_quit L w2)) \<and>
   (int (length (reviews sa)) < t \<and> page sa \<le> MAX_PAGES \<and>
    loop_body L S n u t sa wa = (Leave ExceptionCaught sb, wb) \<longrightarrow>
      paging_loop L S n u t sa wa = Some (ExceptionCaught, sb, wb) \<and>
      prefix (reviews sa) (reviews sb)) \<and>
   (int (length (reviews sa)) < t \<and> page sa \<le> MAX_PAGES \<and>
    loop_body L S n u t sa wa = (Continue sc, wc) \<longrightarrow>
      paging_loop L S n u t sa wa = paging_loop L S n u t sc wc \<and>
      prefix (reviews sa) (reviews sc)) \<and>
   (seq (click_all_read_more L) (\<lambda>_ w1.
       seq (time_sleep L 500) (\<lambda>_. find_review_blocks L) (force_render L w1)) wa
      = (Inr blocks, wd) \<and> blocks \<noteq> [] \<and>
    parse_blocks L n (page sa) t blocks (reviews sa) wd = (rows, we) \<and>
    int (length rows) < t \<and> goto_next_page L S u (page sa) we = (Inl e', wg) \<longrightarrow>
      loop_body L S n u t sa wa
        = (Leave ExceptionCaught (sa\<lparr>consecutive_empty := 0, reviews := rows\<rparr>), wg) \<and>
      prefix (reviews sa) rows) \<and>
   (paging_loop L S n u t sa wa = Some (x', s', wh) \<longrightarrow> prefix (reviews sa) (reviews s'))"
proof (intro conjI impI)
  assume g: "get_driver L (headless S) w = (Inr (), w0)"
  let ?st0 = "\<lparr>reviews = [], page = 1, consecutive_empty = 0\<rparr>"
  obtain r w1' where p: "page_one L S u w0 = (r, w1')" by (cases "page_one L S u w0")
  have "\<exists>x st w'. scrape_run L S n u t w = Some (Inr (x, st), driver_quit L w')"
  proof (cases r)
    case (Inl e)
    with g p show ?thesis by (auto simp: scrape_run_def)
  next
    case (Inr v)
    from paging_loop_returns [of L S n u t ?st0 w1'] obtain x st w'
      where "paging_loop L S n u t ?st0 w1' = Some (x, st, w')" by (metis prod_cases3)
    with g p Inr show ?thesis by (auto simp: scrape_run_def)
  qed
  then show "\<exists>x st w'. scrape_run L S n u t w = Some (Inr (x, st), driver_quit L w') \<and>
         scrape_reviews_for_series L S n u t w = Some (Inr (reviews st), driver_quit L w')"
    by (auto simp: scrape_reviews_for_series_Inr)
next
  assume "get_driver L (headless S) w = (Inr (), w0) \<and> page_one L S u w0 = (Inl e, w1)"
  then show "scrape_reviews_for_series L S n u t w = Some (Inr [], driver_quit L w1)"
    by (simp add: scrape_reviews_for_series_def scrape_run_def)
next
  assume "get_driver L (headless S) w = (Inr (), w0) \<and> page_one L S u w0 = (Inr (), w1) \<and>
    paging_loop L S n u t \<lparr>reviews = [], page = 1, consecutive_empty = 0\<rparr> w1 = Some (x, st, w2)"
  then show "scrape_reviews_for_series L S n u t w = Some (Inr (reviews st), driver_quit L w2)"
    by (simp add: scrape_reviews_for_series_def scrape_run_def)
next
  assume a: "int (length (reviews sa)) < t \<and> page sa \<le> MAX_PAGES \<and>
    loop_body L S n u t sa wa = (Leave ExceptionCaught sb, wb)"
  then show "paging_loop L S n u t sa wa = Some (ExceptionCaught, sb, wb)"
    by (subst paging_loop.simps) simp
  from a have "loop_body L S n u t sa wa = (Leave ExceptionCaught sb, wb)" by simp
  then show "prefix (reviews sa) (reviews sb)" by (rule loop_body_Leave(1))
next
  assume a: "int (length (reviews sa)) < t \<and> page sa \<le> MAX_PAGES \<and>
    loop_body L S n u t sa wa = (Continue sc, wc)"
  then show "paging_loop L S n u t sa wa = paging_loop L S n u t sc wc"
    by (subst paging_loop.simps) simp
  from a have "loop_body L S n u t sa wa = (Continue sc, wc)" by simp
  then show "prefix (reviews sa) (reviews sc)" by (rule loop_body_Continue(2))
next
  assume a: "seq (click_all_read_more L) (\<lambda>_ w1.
       seq (time_sleep L 500) (\<lambda>_. find_review_blocks L) (force_render L w1)) wa
      = (Inr blocks, wd) \<and> blocks \<noteq> [] \<and>
    parse_blocks L n (page sa) t blocks (reviews sa) wd = (rows, we) \<and>
    int (length rows) < t \<and> goto_next_page L S u (page sa) we = (Inl e', wg)"
  then show "loop_body L S n u t sa wa
        = (Leave ExceptionCaught (sa\<lparr>consecutive_empty := 0, reviews := rows\<rparr>), wg)"
    by (simp add: loop_body_def advance_def Let_def)
  from a have "parse_blocks L n (page sa) t blocks (reviews sa) wd = (rows, we)" by simp
  then show "prefix (reviews sa) rows" by (rule parse_blocks_prefix_eq)
next
  assume "paging_loop L S n u t sa wa = Some (x', s', wh)"
  then show "prefix (reviews sa) (reviews s')" by (rule paging_loop_prefix)
qed


lemma first_page_opens:
  "page_one (site [''u''] [(praise, praise)]) default_scraper ''u'' False = (Inr (), False)"
  by code_simp

lemma first_page_fails:
  "page_one (site [] [(praise, praise)]) default_scraper ''u'' False
   = (Inl WebDriverException, False)"
  by code_simp

lemma second_page_blocks:
  "seq (click_all_read_more (site [''u''] [(praise, praise)])) (\<lambda>_ w1.
     seq (time_sleep (site [''u''] [(praise, praise)]) 500)
       (\<lambda>_. find_review_blocks (site [''u''] [(praise, praise)]))
       (force_render (site [''u''] [(praise, praise)]) w1)) False
   = (Inr [Block 0], False)"
  by code_simp

lemma second_page_rows:
  "parse_blocks (site [''u''] [(praise, praise)]) ''Naruto''
     (page \<lparr>reviews = [], page = 1, consecutive_empty = 0\<rparr>) 2 [Block 0]
     (reviews \<lparr>reviews = [], page = 1, consecutive_empty = 0\<rparr>) False
   = ([praise_row], True)"
  by code_simp

lemma second_page_unreachable:
  "goto_next_page (site [''u''] [(praise, praise)]) default_scraper ''u''
     (page \<lparr>reviews = [], page = 1, consecutive_empty = 0\<rparr>) True
   = (Inl WebDriverException, True)"
  by code_simp

lemma site_get_driver: "get_driver (site ps ts) (headless default_scraper) False = (Inr (), False)"
  by (simp add: get_driver_def site_def)

lemma site_driver_quit: "driver_quit (site ps ts) w = w"
  by (simp add: site_def)

theorem fault_keeps_partial_records_witness:
  "page_one (site [''u''] [(praise, praise)]) default_scraper ''u'' False = (Inr (), False) \<and>
   goto_next_page (site [''u''] [(praise, praise)]) default_scraper ''u'' 1 True
   = (Inl WebDriverException, True) \<and>
   loop_body (site [''u''] [(praise, praise)]) default_scraper ''Naruto'' ''u'' 2
     \<lparr>reviews = [], page = 1, consecutive_empty = 0\<rparr> False
   = (Leave ExceptionCaught \<lparr>reviews = [praise_row], page = 1, consecutive_empty = 0\<rparr>, True) \<and>
   paging_loop (site [''u''] [(praise, praise)]) default_scraper ''Naruto'' ''u'' 2
     \<lparr>reviews = [], page = 1, consecutive_empty = 0\<rparr> False
   = Some (ExceptionCaught, \<lparr>reviews = [praise_row], page = 1, consecutive_empty = 0\<rparr>, True) \<and>
   scrape_reviews_for_series (site [''u''] [(praise, praise)]) default_scraper ''Naruto'' ''u'' 2 False
   = Some (Inr [praise_row], True) \<and>
   page_one (site [] [(praise, praise)]) default_scraper ''u'' False
   = (Inl WebDriverException, False) \<and>
   scrape_reviews_for_series (site [] [(praise, praise)]) default_scraper ''Naruto'' ''u'' 2 False
   = Some (Inr [], False) \<and>
   loop_body (site [''u'', ''u?p=2''] [(praise, praise)]) default_scraper ''Naruto'' ''u'' 2
     \<lparr>reviews = [], page = 1, consecutive_empty = 0\<rparr> False
   = (Continue \<lparr>reviews = [praise_row], page = 2, consecutive_empty = 0\<rparr>, True) \<and>
   paging_loop (site [''u'', ''u?p=2''] [(praise, praise)]) default_scraper ''Naruto'' ''u'' 2
     \<lparr>reviews = [], page = 1, consecutive_empty = 0\<rparr> False
   = paging_loop (site [''u'', ''u?p=2''] [(praise, praise)]) default_scraper ''Naruto'' ''u'' 2
       \<lparr>reviews = [praise_row], page = 2, consecutive_empty = 0\<rparr> True"
proof -
  let ?L = "site [''u''] [(praise, praise)]"
  let ?K = "site [] [(praise, praise)]"
  let ?M = "site [''u'', ''u?p=2''] [(praise, praise)]"
  let ?st0 = "\<lparr>reviews = [], page = 1, consecutive_empty = 0\<rparr>"
  let ?st1 = "\<lparr>reviews = [praise_row], page = 1, consecutive_empty = 0\<rparr>"
  let ?st2 = "\<lparr>reviews = [praise_row], page = 2, consecutive_empty = 0\<rparr>"
  have cond: "int (length (reviews ?st0)) < 2 \<and> page ?st0 \<le> MAX_PAGES"
    by (simp add: MAX_PAGES_def)
  note one = fault_keeps_partial_records [where L = ?L and S = default_scraper and w = False and ?w0.0 = False
      and n = "''Naruto''" and u = "''u''" and t = 2 and ?w1.0 = False and x = ExceptionCaught
      and st = ?st1 and ?w2.0 = True and sa = ?st0 and wa = False and sb = ?st1 and wb = True
      and blocks = "[Block 0]" and wd = False and rows = "[praise_row]" and we = True
      and e' = WebDriverException and wg = True and x' = ExceptionCaught and s' = ?st1
      and wh = True and e = WebDriverException and sc = ?st1 and wc = True]
  from one have "seq (click_all_read_more ?L) (\<lambda>_ w1.
       seq (time_sleep ?L 500) (\<lambda>_. find_review_blocks ?L) (force_render ?L w1)) False
      = (Inr [Block 0], False) \<and> [Block 0] \<noteq> [] \<and>
    parse_blocks ?L ''Naruto'' (page ?st0) 2 [Block 0] (reviews ?st0) False = ([praise_row], True) \<and>
    int (length [praise_row]) < 2 \<and>
    goto_next_page ?L default_scraper ''u'' (page ?st0) True = (Inl WebDriverException, True) \<longrightarrow>
      loop_body ?L default_scraper ''Naruto'' ''u'' 2 ?st0 False
        = (Leave ExceptionCaught (?st0\<lparr>consecutive_empty := 0, reviews := [praise_row]\<rparr>), True) \<and>
      prefix (reviews ?st0) [praise_row]"
    by (elim conjE)
  moreover have "seq (click_all_read_more ?L) (\<lambda>_ w1.
       seq (time_sleep ?L 500) (\<lambda>_. find_review_blocks ?L) (force_render ?L w1)) False
      = (Inr [Block 0], False) \<and> [Block 0] \<noteq> [] \<and>
    parse_blocks ?L ''Naruto'' (page ?st0) 2 [Block 0] (reviews ?st0) False = ([praise_row], True) \<and>
    int (length [praise_row]) < 2 \<and>
    goto_next_page ?L default_scraper ''u'' (page ?st0) True = (Inl WebDriverException, True)"
    using second_page_blocks second_page_rows second_page_unreachable by simp
  ultimately have "loop_body ?L default_scraper ''Naruto'' ''u'' 2 ?st0 False
        = (Leave ExceptionCaught (?st0\<lparr>consecutive_empty := 0, reviews := [praise_row]\<rparr>), True) \<and>
      prefix (reviews ?st0) [praise_row]"
    by (rule mp)
  then have round: "loop_body ?L default_scraper ''Naruto'' ''u'' 2 ?st0 False
        = (Leave ExceptionCaught ?st1, True)" by simp
  from one have "int (length (reviews ?st0)) < 2 \<and> page ?st0 \<le> MAX_PAGES \<and>
      loop_body ?L default_scraper ''Naruto'' ''u'' 2 ?st0 False = (Leave ExceptionCaught ?st1, True) \<longrightarrow>
      paging_loop ?L default_scraper ''Naruto'' ''u'' 2 ?st0 False = Some (ExceptionCaught, ?st1, True) \<and>
      prefix (reviews ?st0) (reviews ?st1)"
    by (elim conjE)
  with cond round
  have loop: "paging_loop ?L default_scraper ''Naruto'' ''u'' 2 ?st0 False
                = Some (ExceptionCaught, ?st1, True)" by simp
  from one have "get_driver ?L (headless default_scraper) False = (Inr (), False) \<and>
      page_one ?L default_scraper ''u'' False = (Inr (), False) \<and>
      paging_loop ?L default_scraper ''Naruto'' ''u'' 2 ?st0 False = Some (ExceptionCaught, ?st1, True) \<longrightarrow>
      scrape_reviews_for_series ?L default_scraper ''Naruto'' ''u'' 2 False
        = Some (Inr (reviews ?st1), driver_quit ?L True)"
    by (elim conjE)
  with site_get_driver [of "[''u'']" "[(praise, praise)]"] first_page_opens loop
  have run: "scrape_reviews_for_series ?L default_scraper ''Naruto'' ''u'' 2 False
        = Some (Inr [praise_row], True)" by (simp add: site_driver_quit)
  note two = fault_keeps_partial_records [where L = ?K and S = default_scraper and w = False and ?w0.0 = False
      and n = "''Naruto''" and u = "''u''" and t = 2 and ?w1.0 = False and e = WebDriverException and x = ExceptionCaught
      and st = ?st0 and ?w2.0 = False and sa = ?st0 and wa = False and sb = ?st0 and wb = False
      and sc = ?st0 and wc = False and blocks = "[]" and wd = False and rows = "[]" and we = False
      and e' = WebDriverException and wg = False and x' = ExceptionCaught and s' = ?st0
      and wh = False]
  from two have "get_driver ?K (headless default_scraper) False = (Inr (), False) \<and>
      page_one ?K default_scraper ''u'' False = (Inl WebDriverException, False) \<longrightarrow>
      scrape_reviews_for_series ?K default_scraper ''Naruto'' ''u'' 2 False
        = Some (Inr [], driver_quit ?K False)"
    by (elim conjE)
  with site_get_driver [of "[]" "[(praise, praise)]"] first_page_fails
  have none: "scrape_reviews_for_series ?K default_scraper ''Naruto'' ''u'' 2 False
        = Some (Inr [], False)" by (simp add: site_driver_quit)
  note three = fault_keeps_partial_records [where L = ?M and S = default_scraper and n = "''Naruto''" and u = "''u''"
      and t = 2 and sa = ?st0 and wa = False and sc = ?st2 and wc = True and w = False
      and ?w0.0 = False and ?w1.0 = False and e = WebDriverException and x = ExceptionCaught
      and st = ?st0 and ?w2.0 = False and sb = ?st0 and wb = False and blocks = "[]"
      and wd = False and rows = "[]" and we = False and e' = WebDriverException and wg = False
      and x' = ExceptionCaught and s' = ?st0 and wh = False]
  from three have "int (length (reviews ?st0)) < 2 \<and> page ?st0 \<le> MAX_PAGES \<and>
      loop_body ?M default_scraper ''Naruto'' ''u'' 2 ?st0 False = (Continue ?st2, True) \<longrightarrow>
      paging_loop ?M default_scraper ''Naruto'' ''u'' 2 ?st0 False
        = paging_loop ?M default_scraper ''Naruto'' ''u'' 2 ?st2 True \<and>
      prefix (reviews ?st0) (reviews ?st2)"
    by (elim conjE)
  with cond one_block_continues
  have cont: "paging_loop ?M default_scraper ''Naruto'' ''u'' 2 ?st0 False
        = paging_loop ?M default_scraper ''Naruto'' ''u'' 2 ?st2 True" by simp
  from second_page_unreachable
  have next_page: "goto_next_page ?L default_scraper ''u'' 1 True = (Inl WebDriverException, True)"
    by simp
  show ?thesis
    by (intro conjI) (rule first_page_opens, rule next_page, rule round, rule loop, rule run,
        rule first_page_fails, rule none, rule one_block_continues, rule cont)
qed

section \<open>The text of a block\<close>

lemma py_strip_length: "length (py_strip s) \<le> length s"
proof -
  have "length (py_strip s) \<le> length (dropWhile py_isspace s)"
    unfolding py_strip_def using length_dropWhile_le [of py_isspace "rev (dropWhile py_isspace s)"]
    by simp
  also have "\<dots> \<le> length s" by (rule length_dropWhile_le)
  finally show ?thesis .
qed

lemma py_join_Cons_length:
  "length (py_join sep (x # xs)) \<le> length x + length sep + length (py_join sep xs)"
  by (cases xs) simp_all

lemma split_from_length:
  "length (py_join '' '' (split_from cur s)) \<le> length cur + length s"
proof (induction s arbitrary: cur)
  case Nil
  then show ?case by simp
next
  case (Cons c cs)
  show ?case
  proof (cases "py_isspace c")
    case False
    with Cons.IH [of "cur @ [c]"] show ?thesis by simp
  next
    case True
    show ?thesis
    proof (cases "cur = []")
      case True
      with \<open>py_isspace c\<close> Cons.IH [of "[]"] show ?thesis by simp
    next
      case False
      have "length (py_join '' '' (cur # split_from [] cs))
              \<le> length cur + length '' '' + length (py_join '' '' (split_from [] cs))"
        by (rule py_join_Cons_length)
      with False \<open>py_isspace c\<close> Cons.IH [of "[]"] show ?thesis by simp
    qed
  qed
qed

lemma clean_review_text_length: "length (clean_review_text s) \<le> length s"
proof (cases "s = []")
  case True
  then show ?thesis by (simp add: clean_review_text_def)
next
  case False
  let ?t = "py_replace_char (CHR 0x09) CHR '' ''
              (py_replace_char (CHR 0x0A) CHR '' '' (py_replace_char (CHR 0x0D) CHR '' '' s))"
  have "length (clean_review_text s) \<le> length (py_join '' '' (py_split ?t))"
    using False py_strip_length by (simp add: clean_review_text_def Let_def)
  also have "\<dots> \<le> length ?t"
    using split_from_length [of "[]" ?t] by (simp add: py_split_def)
  also have "\<dots> = length s" by (simp add: py_replace_char_def)
  finally show ?thesis .
qed

lemma reread_text_longer:
  "reread_text L block sels t w = (t', w') \<Longrightarrow> t' = t \<or> length t < length t'"
proof (induction sels arbitrary: w)
  case Nil
  then show ?case by simp
next
  case (Cons sel sels)
  then show ?case
    by (auto simp: Let_def split: prod.splits sum.splits if_splits)
qed

lemma read_body_text_unfold:
  assumes "first_text L block TEXT_SELECTORS [] w = (t1, w1)"
  shows "read_body_text L block w =
           (if looks_truncated t1
            then seq (time_sleep L 100)
                   (\<lambda>_ w3. case reread_text L block TEXT_SELECTORS t1 w3 of
                              (t, w4) \<Rightarrow> (Inr t, w4))
                   (expand_review_in_block L block w1)
            else (Inr t1, w1))"
  using assms by (simp add: read_body_text_def)

lemma read_body_text_longer:
  assumes "first_text L block TEXT_SELECTORS [] w = (t1, w1)"
    and "read_body_text L block w = (Inr t, w')"
  shows "t = t1 \<or> length t1 < length t"
proof (cases "looks_truncated t1")
  case False
  with assms show ?thesis by (simp add: read_body_text_unfold)
next
  case True
  with assms have "seq (time_sleep L 100)
                     (\<lambda>_ w3. case reread_text L block TEXT_SELECTORS t1 w3 of
                                (t, w4) \<Rightarrow> (Inr t, w4))
                     (expand_review_in_block L block w1) = (Inr t, w')"
    by (simp add: read_body_text_unfold)
  then obtain w3 where
    r: "(case reread_text L block TEXT_SELECTORS t1 w3 of (t, w4) \<Rightarrow> (Inr t, w4))
          = (Inr t :: error + string, w')"
    unfolding seq_Inr_iff by blast
  obtain t2 w4 where rr: "reread_text L block TEXT_SELECTORS t1 w3 = (t2, w4)"
    by (cases "reread_text L block TEXT_SELECTORS t1 w3")
  with r have "t2 = t" by simp
  with rr reread_text_longer [of L block TEXT_SELECTORS t1 w3 t2 w4] show ?thesis by simp
qed

lemma reread_text_static:
  assumes "\<forall>sel \<in> set sels.
             seq (element_find_element L block CSS_SELECTOR sel) (element_text L) w = (shown sel, w)"
  shows "reread_text L block sels t w
           = (case find (\<lambda>s. length t < length s) (map (\<lambda>sel. reread_candidate (shown sel)) sels) of
                None \<Rightarrow> t | Some s \<Rightarrow> s, w)"
  using assms
proof (induction sels)
  case Nil
  then show ?case by simp
next
  case (Cons sel sels)
  from Cons.prems
  have here: "seq (element_find_element L block CSS_SELECTOR sel) (element_text L) w = (shown sel, w)"
    by simp
  from Cons have IH: "reread_text L block sels t w
           = (case find (\<lambda>s. length t < length s) (map (\<lambda>sel. reread_candidate (shown sel)) sels) of
                None \<Rightarrow> t | Some s \<Rightarrow> s, w)"
    by simp
  show ?case
  proof (cases "shown sel")
    case (Inl e)
    with here IH show ?thesis by (simp add: reread_candidate_def)
  next
    case (Inr x)
    with here IH show ?thesis by (simp add: reread_candidate_def Let_def)
  qed
qed

text \<open>
  C6. With \<open>t1\<close> the text of the first pass: if \<open>t1\<close> is not empty, has no truncation
  marker or has 400 characters or more, and has 120 characters or more, the text of the
  block is \<open>t1\<close> and nothing else is done; otherwise the block is expanded and read
  again. The text kept after the second reading is \<open>t1\<close> or a text longer than \<open>t1\<close>;
  on a block whose texts stand still after the expansion it is the first text, in the
  order of the selectors, that is longer than \<open>t1\<close>, and \<open>t1\<close> only if none is.
\<close>

theorem expansion_trigger_and_choice:
  assumes "first_text L block TEXT_SELECTORS [] w = (t1, w1)"
  shows "(\<not> (t1 = [] \<or> (py_in ''...'' t1 \<and> length t1 < 400) \<or> length t1 < 120) \<longrightarrow>
            read_body_text L block w = (Inr t1, w1)) \<and>
         (t1 = [] \<or> (py_in ''...'' t1 \<and> length t1 < 400) \<or> length t1 < 120 \<longrightarrow>
            read_body_text L block w =
              seq (time_sleep L 100)
                (\<lambda>_ w3. case reread_text L block TEXT_SELECTORS t1 w3 of
                           (t, w4) \<Rightarrow> (Inr t, w4))
                (expand_review_in_block L block w1)) \<and>
         (\<forall>t w'. read_body_text L block w = (Inr t, w') \<longrightarrow> t = t1 \<or> length t1 < length t) \<and>
         ((t1 = [] \<or> (py_in ''...'' t1 \<and> length t1 < 400) \<or> length t1 < 120) \<and>
          time_sleep L 100 (expand_review_in_block L block w1) = (Inr (), w3) \<and>
          (\<forall>sel \<in> set TEXT_SELECTORS.
             seq (element_find_element L block CSS_SELECTOR sel) (element_text L) w3
               = (shown sel, w3)) \<longrightarrow>
            read_body_text L block w
              = (Inr (case find (\<lambda>s. length t1 < length s)
                              (map (\<lambda>sel. reread_candidate (shown sel)) TEXT_SELECTORS) of
                        None \<Rightarrow> t1 | Some s \<Rightarrow> s), w3))"
proof (intro conjI impI)
  assume "\<not> (t1 = [] \<or> (py_in ''...'' t1 \<and> length t1 < 400) \<or> length t1 < 120)"
  then have "\<not> looks_truncated t1" unfolding looks_truncated_def .
  with read_body_text_unfold [OF assms] show "read_body_text L block w = (Inr t1, w1)"
    by simp
next
  assume "t1 = [] \<or> (py_in ''...'' t1 \<and> length t1 < 400) \<or> length t1 < 120"
  then have "looks_truncated t1" unfolding looks_truncated_def .
  with read_body_text_unfold [OF assms] show "read_body_text L block w =
              seq (time_sleep L 100)
                (\<lambda>_ w3. case reread_text L block TEXT_SELECTORS t1 w3 of
                           (t, w4) \<Rightarrow> (Inr t, w4))
                (expand_review_in_block L block w1)"
    by simp
next
  show "\<forall>t w'. read_body_text L block w = (Inr t, w') \<longrightarrow> t = t1 \<or> length t1 < length t"
    using read_body_text_longer [OF assms] by blast
next
  assume a: "(t1 = [] \<or> (py_in ''...'' t1 \<and> length t1 < 400) \<or> length t1 < 120) \<and>
          time_sleep L 100 (expand_review_in_block L block w1) = (Inr (), w3) \<and>
          (\<forall>sel \<in> set TEXT_SELECTORS.
             seq (element_find_element L block CSS_SELECTOR sel) (element_text L) w3
               = (shown sel, w3))"
  then have "t1 = [] \<or> (py_in ''...'' t1 \<and> length t1 < 400) \<or> length t1 < 120" by (rule conjunct1)
  then have trig: "looks_truncated t1" unfolding looks_truncated_def .
  from a have sl: "time_sleep L 100 (expand_review_in_block L block w1) = (Inr (), w3)" by simp
  from a have "\<forall>sel \<in> set TEXT_SELECTORS.
             seq (element_find_element L block CSS_SELECTOR sel) (element_text L) w3
               = (shown sel, w3)" by simp
  from reread_text_static [OF this, of t1]
  have rr: "reread_text L block TEXT_SELECTORS t1 w3
              = (case find (\<lambda>s. length t1 < length s)
                        (map (\<lambda>sel. reread_candidate (shown sel)) TEXT_SELECTORS) of
                   None \<Rightarrow> t1 | Some s \<Rightarrow> s, w3)" .
  from read_body_text_unfold [OF assms] trig sl rr
  show "read_body_text L block w
              = (Inr (case find (\<lambda>s. length t1 < length s)
                              (map (\<lambda>sel. reread_candidate (shown sel)) TEXT_SELECTORS) of
                        None \<Rightarrow> t1 | Some s \<Rightarrow> s), w3)"
    by (simp add: seq_def)
qed

lemma great_show_first:
  "first_text great_show (Block 0) TEXT_SELECTORS [] False = (''Great show...'', False)"
  by code_simp

lemma great_show_marker: "py_in ''...'' ''Great show...'' \<and> length ''Great show...'' = 13"
  by code_simp

lemma great_show_expanded:
  "time_sleep great_show 100 (expand_review_in_block great_show (Block 0) False) = (Inr (), True)"
  by code_simp

lemma great_show_static:
  "seq (element_find_element great_show (Block 0) CSS_SELECTOR sel) (element_text great_show) True
     = (great_show_reads sel, True)"
  by (simp add: great_show_def site_def seq_def great_show_reads_def)

lemma great_show_choice:
  "(case find (\<lambda>s. length ''Great show...'' < length s)
           (map (\<lambda>sel. reread_candidate (great_show_reads sel)) TEXT_SELECTORS) of
      None \<Rightarrow> ''Great show...'' | Some s \<Rightarrow> s) = replicate 600 CHR ''x''"
  by code_simp

lemma long_text_first:
  "first_text long_text (Block 0) TEXT_SELECTORS [] False = (replicate 120 CHR ''y'', False)"
  by code_simp

lemma long_text_marker: "\<not> py_in ''...'' (replicate 120 CHR ''y'')"
  by code_simp

theorem expansion_trigger_and_choice_witness:
  "first_text great_show (Block 0) TEXT_SELECTORS [] False = (''Great show...'', False) \<and>
   py_in ''...'' ''Great show...'' \<and> length ''Great show...'' = 13 \<and>
   time_sleep great_show 100 (expand_review_in_block great_show (Block 0) False)
     = (Inr (), True) \<and>
   seq (element_find_element great_show (Block 0) CSS_SELECTOR ''div.text'')
     (element_text great_show) True = (great_show_reads ''div.text'', True) \<and>
   seq (element_find_element great_show (Block 0) CSS_SELECTOR ''div.review-text'')
     (element_text great_show) True = (great_show_reads ''div.review-text'', True) \<and>
   seq (element_find_element great_show (Block 0) CSS_SELECTOR ''.text.readability'')
     (element_text great_show) True = (great_show_reads ''.text.readability'', True) \<and>
   seq (element_find_element great_show (Block 0) CSS_SELECTOR ''.review-content'')
     (element_text great_show) True = (great_show_reads ''.review-content'', True) \<and>
   read_body_text great_show (Block 0) False = (Inr (replicate 600 CHR ''x''), True) \<and>
   length ''Great show...'' < length (replicate 600 CHR ''x'') \<and>
   first_text long_text (Block 0) TEXT_SELECTORS [] False = (replicate 120 CHR ''y'', False) \<and>
   \<not> py_in ''...'' (replicate 120 CHR ''y'') \<and>
   read_body_text long_text (Block 0) False = (Inr (replicate 120 CHR ''y''), False)"
proof -
  note inst = expansion_trigger_and_choice [OF great_show_first, of True great_show_reads]
  have st: "\<forall>sel \<in> set TEXT_SELECTORS.
             seq (element_find_element great_show (Block 0) CSS_SELECTOR sel)
               (element_text great_show) True = (great_show_reads sel, True)"
    using great_show_static by blast
  have tr: "''Great show...'' = [] \<or> (py_in ''...'' ''Great show...'' \<and> length ''Great show...'' < 400)
              \<or> length ''Great show...'' < 120"
    by simp
  from inst tr great_show_expanded st
  have "read_body_text great_show (Block 0) False
          = (Inr (case find (\<lambda>s. length ''Great show...'' < length s)
                          (map (\<lambda>sel. reread_candidate (great_show_reads sel)) TEXT_SELECTORS) of
                    None \<Rightarrow> ''Great show...'' | Some s \<Rightarrow> s), True)"
    by blast
  then have body: "read_body_text great_show (Block 0) False = (Inr (replicate 600 CHR ''x''), True)"
    by (simp only: great_show_choice)
  have a: "length ''Great show...'' < length (replicate 600 CHR ''x'')" by simp
  have "\<not> (replicate 120 CHR ''y'' = [] \<or>
            (py_in ''...'' (replicate 120 CHR ''y'') \<and> length (replicate 120 CHR ''y'') < 400) \<or>
            length (replicate 120 CHR ''y'') < 120)"
    using long_text_marker by (simp only: length_replicate) simp
  with expansion_trigger_and_choice [OF long_text_first]
  have b: "read_body_text long_text (Block 0) False = (Inr (replicate 120 CHR ''y''), False)"
    by blast
  from great_show_marker have m1: "py_in ''...'' ''Great show...''" and m2: "length ''Great show...'' = 13"
    by simp_all
  show ?thesis
    by (intro conjI) (rule great_show_first, rule m1, rule m2, rule great_show_expanded,
        rule great_show_static, rule great_show_static, rule great_show_static,
        rule great_show_static, rule body, rule a, rule long_text_first, rule long_text_marker,
        rule b)
qed

section \<open>The recommendation tag\<close>








lemma parse_review_block_parts:
  assumes "parse_review_block L block w = (Some row, w')"
  obtains body w1 w2 w3 where "read_body_text L block w = (Inr body, w1)" "50 \<le> length body"
    "review_text row = clean_review_text body"
    "find_recommendation L block w2 = (recommendation row, w3)"
proof -
  obtain r w1 where body: "read_body_text L block w = (r, w1)"
    by (cases "read_body_text L block w")
  show ?thesis
  proof (cases r)
    case (Inl e)
    with assms body show ?thesis by (simp add: parse_review_block_def)
  next
    case (Inr bt)
    let ?sels = "[''div.score'', ''span.score'', ''.rating'', ''.num'']"
    from assms body Inr have gate: "\<not> (bt = [] \<or> length bt < 50)"
      by (auto simp: parse_review_block_def)
    obtain s w2 where score: "find_score L block ?sels w1 = (s, w2)"
      by (cases "find_score L block ?sels w1")
    obtain tag w3 where tag: "find_recommendation L block w2 = (tag, w3)"
      by (cases "find_recommendation L block w2")
    from assms body Inr gate score tag
    have "review_text row = clean_review_text bt \<and> recommendation row = tag"
      by (cases s) (auto simp: parse_review_block_def split: prod.splits)
    with that [of bt w1 w2 w3] body Inr gate tag show ?thesis by simp
  qed
qed

lemma parse_review_block_gated:
  assumes "parse_review_block L block w = (Some row, w')"
  shows "read_and_gated L (review_text row)"
proof -
  from assms obtain body w1 where "read_body_text L block w = (Inr body, w1)"
    "50 \<le> length body" "review_text row = clean_review_text body"
    by (rule parse_review_block_parts)
  with assms show ?thesis
    unfolding read_and_gated_def by blast
qed













section \<open>The length gate\<close>

lemma update_row_review_text: "review_text (update_row L n pg row) = review_text row"
  by (simp add: update_row_def parsed_row.defs)

lemma parse_blocks_gated:
  assumes "parse_blocks L n pg t blocks rows w = (rows', w')"
    and "\<forall>r \<in> set rows. read_and_gated L (review_text r)"
  shows "\<forall>r \<in> set rows'. read_and_gated L (review_text r)"
  using assms
proof (induction blocks arbitrary: rows w)
  case Nil
  then show ?case by simp
next
  case (Cons b blocks)
  show ?case
  proof (cases "int (length rows) \<ge> t")
    case True
    with Cons.prems show ?thesis by simp
  next
    case False
    obtain r w1 where p: "parse_review_block L b w = (r, w1)"
      by (cases "parse_review_block L b w")
    show ?thesis
    proof (cases r)
      case None
      with p False Cons.prems have "parse_blocks L n pg t blocks rows w1 = (rows', w')" by simp
      from Cons.IH [OF this Cons.prems(2)] show ?thesis .
    next
      case (Some row)
      with p False Cons.prems
      have rec: "parse_blocks L n pg t blocks (rows @ [update_row L n pg row]) w1 = (rows', w')"
        by simp
      from p Some have "read_and_gated L (review_text row)"
        by (auto intro: parse_review_block_gated)
      with Cons.prems(2)
      have "\<forall>r \<in> set (rows @ [update_row L n pg row]). read_and_gated L (review_text r)"
        by (auto simp: update_row_review_text)
      from Cons.IH [OF rec this] show ?thesis .
    qed
  qed
qed

lemma advance_reviews:
  "advance L S u st w = (s, w') \<Longrightarrow> reviews (state_of s) = reviews st"
  unfolding advance_def state_of_def
  by (auto split: prod.splits sum.splits if_splits)

lemma loop_body_reviews:
  assumes "loop_body L S n u t st w = (s, w')"
  shows "reviews (state_of s) = reviews st \<or>
         (\<exists>blocks w2 w3. parse_blocks L n (page st) t blocks (reviews st) w2
                            = (reviews (state_of s), w3))"
proof -
  let ?m = "seq (click_all_read_more L) (\<lambda>_ w1.
           seq (time_sleep L 500) (\<lambda>_. find_review_blocks L) (force_render L w1))"
  obtain res w2 where m: "?m w = (res, w2)" by (cases "?m w")
  show ?thesis
  proof (cases res)
    case (Inl e)
    with assms m have "s = Leave ExceptionCaught st" by (simp add: loop_body_def)
    then show ?thesis by (simp add: state_of_def)
  next
    case (Inr blocks)
    show ?thesis
    proof (cases "blocks = []")
      case True
      let ?st1 = "st\<lparr>consecutive_empty := consecutive_empty st + 1\<rparr>"
      show ?thesis
      proof (cases "consecutive_empty ?st1 \<ge> MAX_EMPTY_PAGES")
        case True
        with assms m Inr \<open>blocks = []\<close> have "s = Leave EmptyStreakBreak ?st1"
          by (simp add: loop_body_def Let_def)
        then show ?thesis by (simp add: state_of_def)
      next
        case False
        with assms m Inr \<open>blocks = []\<close> have "advance L S u ?st1 w2 = (s, w')"
          by (simp add: loop_body_def Let_def)
        from advance_reviews [OF this] show ?thesis by simp
      qed
    next
      case False
      obtain rows w3 where pb: "parse_blocks L n (page st) t blocks (reviews st) w2 = (rows, w3)"
        by (cases "parse_blocks L n (page st) t blocks (reviews st) w2")
      let ?st2 = "st\<lparr>consecutive_empty := 0, reviews := rows\<rparr>"
      have "reviews (state_of s) = rows"
      proof (cases "int (length rows) \<ge> t")
        case True
        with assms m Inr \<open>blocks \<noteq> []\<close> pb have "s = Leave TargetBreak ?st2"
          by (simp add: loop_body_def Let_def)
        then show ?thesis by (simp add: state_of_def)
      next
        case False
        with assms m Inr \<open>blocks \<noteq> []\<close> pb have "advance L S u ?st2 w3 = (s, w')"
          by (simp add: loop_body_def Let_def)
        from advance_reviews [OF this] show ?thesis by simp
      qed
      with pb show ?thesis by blast
    qed
  qed
qed

lemma loop_body_gated:
  assumes "loop_body L S n u t st w = (s, w')"
    and "\<forall>r \<in> set (reviews st). read_and_gated L (review_text r)"
  shows "\<forall>r \<in> set (reviews (state_of s)). read_and_gated L (review_text r)"
  using loop_body_reviews [OF assms(1)] assms(2) parse_blocks_gated by metis

lemma paging_loop_gated:
  assumes "paging_loop L S n u t st w = Some (x, st', w')"
    and "\<forall>r \<in> set (reviews st). read_and_gated L (review_text r)"
  shows "\<forall>r \<in> set (reviews st'). read_and_gated L (review_text r)"
proof -
  let ?G = "\<lambda>st. \<forall>r \<in> set (reviews st). read_and_gated L (review_text r)"
  have "\<exists>r. paging_loop L S n u t st w = Some r \<and> (?G st \<longrightarrow> ?G (fst (snd r)))"
  proof (rule paging_loop_rule [where P = "\<lambda>st r. ?G st \<longrightarrow> ?G (fst (snd r))"], goal_cases)
    case (1 st w)
    show ?case by simp
  next
    case (2 st w x st' w')
    from loop_body_gated [OF 2(3)] show ?case by (simp add: state_of_def)
  next
    case (3 st w st1 w1 r)
    from loop_body_gated [OF 3(3)] have "?G st \<longrightarrow> ?G st1" by (simp add: state_of_def)
    with 3(4) show ?case by blast
  qed
  then obtain r where "paging_loop L S n u t st w = Some r" and "?G st \<longrightarrow> ?G (fst (snd r))"
    by blast
  with assms show ?thesis by simp
qed

text \<open>
  C4, as amended. The length gate is applied to the body text before it is cleaned.
  A block is parsed to a row only if the body text read from it has at least 50
  characters, and the text of the row is the cleaned form of that body text. Every
  record of a harvest holds the text of such a row, which is not longer than the body
  text it was cleaned from.
\<close>

theorem stored_text_gated_before_cleaning:
  "(parse_review_block L block w0 = (Some row, w1) \<longrightarrow>
      (\<exists>body w2. read_body_text L block w0 = (Inr body, w2) \<and> 50 \<le> length body \<and>
         review_text row = clean_review_text body)) \<and>
   (scrape_reviews_for_series L S n u t w = Some (Inr rs, w') \<and> r \<in> set rs \<longrightarrow>
      (\<exists>blk wa wb wc row' body.
         parse_review_block L blk wa = (Some row', wb) \<and> review_text row' = review_text r \<and>
         read_body_text L blk wa = (Inr body, wc) \<and> 50 \<le> length body \<and>
         review_text r = clean_review_text body \<and> length (review_text r) \<le> length body))"
proof (intro conjI impI)
  assume "parse_review_block L block w0 = (Some row, w1)"
  then obtain body w2 where "read_body_text L block w0 = (Inr body, w2)"
    "50 \<le> length body" "review_text row = clean_review_text body"
    by (rule parse_review_block_parts)
  then show "\<exists>body w2. read_body_text L block w0 = (Inr body, w2) \<and> 50 \<le> length body \<and>
         review_text row = clean_review_text body"
    by blast
next
  assume a: "scrape_reviews_for_series L S n u t w = Some (Inr rs, w') \<and> r \<in> set rs"
  then obtain x st where run: "scrape_run L S n u t w = Some (Inr (x, st), w')"
    and rs: "rs = reviews st"
    by (auto simp: scrape_reviews_for_series_Inr)
  from run have "\<forall>r \<in> set (reviews st). read_and_gated L (review_text r)"
  proof (cases rule: scrape_run_cases)
    case (1 w1)
    then show ?thesis by simp
  next
    case (2 w1 w2)
    from paging_loop_gated [OF 2(1)] show ?thesis by simp
  qed
  with rs a have "read_and_gated L (review_text r)" by simp
  then obtain blk wa wb wc row' body where
    p: "parse_review_block L blk wa = (Some row', wb)" "review_text row' = review_text r"
      "read_body_text L blk wa = (Inr body, wc)" "50 \<le> length body"
      "review_text r = clean_review_text body"
    unfolding read_and_gated_def by blast
  from p(5) clean_review_text_length [of body]
  have "length (review_text r) \<le> length body" by simp
  with p show "\<exists>blk wa wb wc row' body.
         parse_review_block L blk wa = (Some row', wb) \<and> review_text row' = review_text r \<and>
         read_body_text L blk wa = (Inr body, wc) \<and> 50 \<le> length body \<and>
         review_text r = clean_review_text body \<and> length (review_text r) \<le> length body"
    by blast
qed

lemma padded_harvest:
  "scrape_reviews_for_series (site [''u''] [(padded, padded)]) default_scraper ''Naruto'' ''u'' 1 False
   = Some (Inr [short_row], True)"
  by code_simp

lemma padded_length: "length padded = 50"
  by code_simp

lemma padded_parse:
  "parse_review_block (site [''u''] [(padded, padded)]) (Block 0) False
   = (Some \<lparr>review_text = ''a b'', user_score = None, recommendation = [], review_date = []\<rparr>,
      True)"
  by code_simp

lemma padded_body:
  "read_body_text (site [''u''] [(padded, padded)]) (Block 0) False = (Inr padded, True)"
  by code_simp

lemma padded_cleaned: "clean_review_text padded = ''a b''"
  by code_simp

text \<open>
  C4, as stated, fails: a body of 50 characters, two letters around 48 spaces, passes
  the gate and is stored as a text of 3 characters.
\<close>

theorem stored_text_shorter_than_50:
  "scrape_reviews_for_series (site [''u''] [(padded, padded)]) default_scraper ''Naruto'' ''u'' 1 False
   = Some (Inr [short_row], True) \<and>
   length padded = 50 \<and> review_text short_row = ''a b'' \<and> length (review_text short_row) < 50"
  using padded_harvest padded_length by (simp add: short_row_def)

theorem stored_text_gated_before_cleaning_witness:
  "parse_review_block (site [''u''] [(padded, padded)]) (Block 0) False
   = (Some \<lparr>review_text = ''a b'', user_score = None, recommendation = [], review_date = []\<rparr>,
      True) \<and>
   read_body_text (site [''u''] [(padded, padded)]) (Block 0) False = (Inr padded, True) \<and>
   50 \<le> length padded \<and> clean_review_text padded = ''a b'' \<and>
   scrape_reviews_for_series (site [''u''] [(padded, padded)]) default_scraper ''Naruto'' ''u'' 1 False
   = Some (Inr [short_row], True) \<and> short_row \<in> set [short_row] \<and>
   (\<exists>blk wa wb wc row' body.
      parse_review_block (site [''u''] [(padded, padded)]) blk wa = (Some row', wb) \<and>
      review_text row' = review_text short_row \<and>
      read_body_text (site [''u''] [(padded, padded)]) blk wa = (Inr body, wc) \<and>
      50 \<le> length body \<and> review_text short_row = clean_review_text body \<and>
      length (review_text short_row) \<le> length body)"
proof -
  note inst = stored_text_gated_before_cleaning [of "site [''u''] [(padded, padded)]" "Block 0"
      False "\<lparr>review_text = ''a b'', user_score = None, recommendation = [], review_date = []\<rparr>"
      True default_scraper "''Naruto''" "''u''" 1 False "[short_row]" True short_row]
  have m: "short_row \<in> set [short_row]" by simp
  from inst padded_harvest m
  have e: "\<exists>blk wa wb wc row' body.
      parse_review_block (site [''u''] [(padded, padded)]) blk wa = (Some row', wb) \<and>
      review_text row' = review_text short_row \<and>
      read_body_text (site [''u''] [(padded, padded)]) blk wa = (Inr body, wc) \<and>
      50 \<le> length body \<and> review_text short_row = clean_review_text body \<and>
      length (review_text short_row) \<le> length body"
    by blast
  have l: "50 \<le> length padded" using padded_length by simp
  show ?thesis
    by (intro conjI) (rule padded_parse, rule padded_body, rule l, rule padded_cleaned,
        rule padded_harvest, rule m, rule e)
qed

end
